theory Spec2Isabelle
  imports Main "HOL-Library.Char_ord" "HOL-Library.List_Lexorder" "HOL-Library.AList"
    "HOL-Library.Multiset"
begin

section \<open>Values of the JavaScript runtime and of the document database\<close>

text \<open>
  The service is untyped at run time: \<^verbatim>\<open>mapDocToVisitor(doc: any)\<close> reads whatever the
  document database holds, and \<^verbatim>\<open>JSON.parse\<close> returns whatever the scanned text encodes.
  One datatype covers the values that occur: \<open>VTime\<close> is a Firestore \<^verbatim>\<open>Timestamp\<close> and
  \<open>VDate\<close> a JavaScript \<^verbatim>\<open>Date\<close>, both as milliseconds since the epoch (the service
  only builds timestamps with \<^verbatim>\<open>Timestamp.fromDate\<close>, which has that precision). Numbers
  are restricted to integers. An object is the list of its properties; a property that
  is absent reads as \<^verbatim>\<open>undefined\<close>, which is \<open>None\<close> here.
\<close>

datatype fval =
    VNull
  | VBool bool
  | VNum int
  | VStr string
  | VTime int
  | VDate int
  | VArr "fval list"
  | VMap "(string \<times> fval) list"

type_synonym obj = "(string \<times> fval) list"

datatype error = FirestoreError string | TypeError | SyntaxError

text \<open>\<^verbatim>\<open>error.code\<close>: only the database's errors carry a code.\<close>

fun code :: "error \<Rightarrow> string option" where
  "code (FirestoreError c) = Some c"
| "code TypeError = None"
| "code SyntaxError = None"

text \<open>Sequencing of a computation that may throw.\<close>

fun andThen :: "error + 'a \<Rightarrow> ('a \<Rightarrow> error + 'b) \<Rightarrow> error + 'b" where
  "andThen (Inl e) f = Inl e"
| "andThen (Inr x) f = f x"

text \<open>Truthiness, as \<^verbatim>\<open>||\<close>, \<^verbatim>\<open>&&\<close> and \<^verbatim>\<open>if\<close> test it.\<close>

fun truthy :: "fval \<Rightarrow> bool" where
  "truthy VNull = False"
| "truthy (VBool b) = b"
| "truthy (VNum n) = (n \<noteq> 0)"
| "truthy (VStr s) = (s \<noteq> [])"
| "truthy (VTime t) = True"
| "truthy (VDate t) = True"
| "truthy (VArr xs) = True"
| "truthy (VMap kvs) = True"

text \<open>\<^verbatim>\<open>x || d\<close> where \<open>x\<close> is a property read (\<open>None\<close> is \<^verbatim>\<open>undefined\<close>).\<close>

fun orElse :: "fval option \<Rightarrow> fval \<Rightarrow> fval" where
  "orElse None d = d"
| "orElse (Some v) d = (if truthy v then v else d)"

text \<open>\<^verbatim>\<open>o.k\<close> on an object, and \<^verbatim>\<open>{...o, k: v}\<close>.\<close>

definition get :: "obj \<Rightarrow> string \<Rightarrow> fval option" where
  "get ob k = map_of ob k"

definition put :: "string \<Rightarrow> fval \<Rightarrow> obj \<Rightarrow> obj" where
  "put k v ob = AList.update k v ob"

text \<open>\<^verbatim>\<open>{...a, ...b}\<close>, also what \<^verbatim>\<open>updateDoc\<close> does to the stored fields.\<close>

definition assign :: "obj \<Rightarrow> obj \<Rightarrow> obj" where
  "assign target source = fold (\<lambda>(k, v). put k v) source target"

text \<open>
  \<^verbatim>\<open>v.k\<close> on any value, for the property names the service reads (\<^verbatim>\<open>id\<close>,
  \<^verbatim>\<open>visitorId\<close>, \<^verbatim>\<open>screeningDate\<close>): only an object can have them, reading them
  from \<^verbatim>\<open>null\<close> throws, every other value gives \<^verbatim>\<open>undefined\<close>.
\<close>

fun getProp :: "fval \<Rightarrow> string \<Rightarrow> error + fval option" where
  "getProp VNull k = Inl TypeError"
| "getProp (VMap kvs) k = Inr (get kvs k)"
| "getProp v k = Inr None"

text \<open>Decimal rendering of numbers, as template literals and \<^verbatim>\<open>toString()\<close> do.\<close>

definition digit :: "nat \<Rightarrow> char" where
  "digit d = ''0123456789'' ! d"

fun showNat :: "nat \<Rightarrow> string" where
  "showNat n = (if n < 10 then [digit n] else showNat (n div 10) @ [digit (n mod 10)])"

declare showNat.simps [simp del]

definition showInt :: "int \<Rightarrow> string" where
  "showInt i = (if i < 0 then CHR ''-'' # showNat (nat (- i)) else showNat (nat i))"

text \<open>
  \<^verbatim>\<open>{...v}\<close>: own enumerable properties. A string or array spreads its indices, a
  Timestamp its seconds and nanoseconds.
\<close>

definition indexed :: "fval list \<Rightarrow> obj" where
  "indexed xs = zip (map showNat [0..<length xs]) xs"

fun spread :: "fval \<Rightarrow> obj" where
  "spread (VMap kvs) = kvs"
| "spread (VArr xs) = indexed xs"
| "spread (VStr s) = indexed (map (\<lambda>c. VStr [c]) s)"
| "spread (VTime t) =
     [(''seconds'', VNum (t div 1000)), (''nanoseconds'', VNum (t mod 1000 * 1000000))]"
| "spread v = []"

text \<open>
  \<^verbatim>\<open>x?.toDate()\<close>: \<^verbatim>\<open>undefined\<close> and \<^verbatim>\<open>null\<close> short-circuit to \<^verbatim>\<open>undefined\<close>, a
  Timestamp converts, and anything else has no callable \<^verbatim>\<open>toDate\<close>.
\<close>

fun toDateOpt :: "fval option \<Rightarrow> error + fval option" where
  "toDateOpt None = Inr None"
| "toDateOpt (Some VNull) = Inr None"
| "toDateOpt (Some (VTime t)) = Inr (Some (VDate t))"
| "toDateOpt (Some v) = Inl TypeError"

text \<open>
  \<^verbatim>\<open>d?.getTime() || 0\<close> on a mapped time field, which is a \<^verbatim>\<open>Date\<close> or \<^verbatim>\<open>null\<close>
  (lemma \<open>mapDocToVisitor_fields\<close> below).
\<close>

fun timeOrZero :: "fval \<Rightarrow> int" where
  "timeOrZero (VDate t) = t"
| "timeOrZero v = 0"

section \<open>The visitor record\<close>

record visitor =
  visitor_id :: string
  fullName :: fval
  phoneNumber :: fval
  photoURL :: fval
  residentName :: fval
  roomNumber :: fval
  purpose :: fval
  visitorIdNumber :: fval
  checkInTime :: fval
  checkOutTime :: fval
  status :: fval
  qrCode :: fval
  badgeNumber :: fval
  healthScreening :: fval

type_synonym document = "string \<times> obj"

definition mapHealthScreening :: "obj \<Rightarrow> error + fval" where
  "mapHealthScreening data =
     (case get data ''healthScreening'' of
        None \<Rightarrow> Inr VNull
      | Some hs \<Rightarrow>
          if truthy hs then
            andThen (getProp hs ''screeningDate'') (\<lambda>sd.
            andThen (toDateOpt sd) (\<lambda>d.
              Inr (VMap (put ''screeningDate'' (orElse d VNull) (spread hs)))))
          else Inr VNull)"

definition mapDocToVisitor :: "document \<Rightarrow> error + visitor" where
  "mapDocToVisitor doc =
     (let data = snd doc in
      andThen (mapHealthScreening data) (\<lambda>hs.
      andThen (toDateOpt (get data ''checkInTime'')) (\<lambda>cin.
      andThen (toDateOpt (get data ''checkOutTime'')) (\<lambda>cout.
        Inr \<lparr> visitor_id = fst doc,
              fullName = orElse (get data ''fullName'') (VStr ''''),
              phoneNumber = orElse (get data ''phoneNumber'') (VStr ''''),
              photoURL = orElse (get data ''photoURL'') VNull,
              residentName = orElse (get data ''residentName'') (VStr ''''),
              roomNumber = orElse (get data ''roomNumber'') (VStr ''''),
              purpose = orElse (get data ''purpose'') (VStr ''''),
              visitorIdNumber = orElse (get data ''visitorIdNumber'') (VStr ''''),
              checkInTime = orElse cin VNull,
              checkOutTime = orElse cout VNull,
              status = orElse (get data ''status'') (VStr ''checked-in''),
              qrCode = orElse (get data ''qrCode'') (VStr ''''),
              badgeNumber = orElse (get data ''badgeNumber'') (VStr ''''),
              healthScreening = hs \<rparr>))))"

section \<open>The document database\<close>

text \<open>
  The managed document database is outside the repository; it is modelled by its
  documented contract. A collection is the list of its documents in ascending order of
  document name, which is the order of a query with no \<^verbatim>\<open>orderBy\<close>. Document names are
  taken to be valid (non-empty, without \<^verbatim>\<open>/\<close>). The database consists of the two
  collections the service uses; their documents have no sub-collections. Every call to
  the database takes its outcome from the environment: \<open>None\<close> when the backend serves
  it, \<open>Some e\<close> when the returned promise rejects with \<open>e\<close> (a missing composite index is
  \<open>FirestoreError ''failed-precondition''\<close>; data that the client library refuses to
  send is a rejected call as well).
\<close>

type_synonym collection = "document list"

record database =
  visitors :: collection
  audit_logs :: collection

definition attempt :: "error option \<Rightarrow> 'a \<Rightarrow> error + 'a" where
  "attempt outcome x = (case outcome of None \<Rightarrow> Inr x | Some e \<Rightarrow> Inl e)"

text \<open>A \<^verbatim>\<open>Date\<close> is stored as a Timestamp.\<close>

fun toFirestore :: "fval \<Rightarrow> fval" where
  "toFirestore (VDate t) = VTime t"
| "toFirestore (VArr xs) = VArr (map toFirestore xs)"
| "toFirestore (VMap kvs) = VMap (map (\<lambda>(k, v). (k, toFirestore v)) kvs)"
| "toFirestore v = v"

definition toFirestoreObj :: "obj \<Rightarrow> obj" where
  "toFirestoreObj ob = map (\<lambda>(k, v). (k, toFirestore v)) ob"

definition getDocs :: "error option \<Rightarrow> collection \<Rightarrow> error + collection" where
  "getDocs outcome result = attempt outcome result"

text \<open>
  \<^verbatim>\<open>addDoc\<close> creates a document under a name the client generates (\<open>newId\<close>, from
  the environment); the write has the precondition that no document of that name exists.
\<close>

definition insertDoc :: "collection \<Rightarrow> string \<Rightarrow> obj \<Rightarrow> collection" where
  "insertDoc coll i data = insort_key fst (i, toFirestoreObj data) coll"

definition addDoc :: "error option \<Rightarrow> string \<Rightarrow> collection \<Rightarrow> obj \<Rightarrow> error + collection \<times> string" where
  "addDoc outcome newId coll data =
     (case outcome of
        Some e \<Rightarrow> Inl e
      | None \<Rightarrow>
          if newId \<in> fst ` set coll
          then Inl (FirestoreError ''already-exists'')
          else Inr (insertDoc coll newId data, newId))"

text \<open>
  \<^verbatim>\<open>updateDoc\<close> overwrites the given fields of the document that a reference names and
  fails when there is none. A reference is the path of a document below the collection:
  the document's name for a document of the collection; a longer path names nothing,
  since there are no sub-collections.
\<close>

type_synonym reference = "string list"

definition updateDoc :: "error option \<Rightarrow> collection \<Rightarrow> reference \<Rightarrow> obj \<Rightarrow> error + collection" where
  "updateDoc outcome coll ref changes =
     (case outcome of
        Some e \<Rightarrow> Inl e
      | None \<Rightarrow>
          if ref \<in> (\<lambda>d. [fst d]) ` set coll
          then Inr (map (\<lambda>d. if [fst d] = ref
                              then (fst d, assign (snd d) (toFirestoreObj changes))
                              else d) coll)
          else Inl (FirestoreError ''not-found''))"

text \<open>\<^verbatim>\<open>where(f, '==', v)\<close>: the field exists and has that value.\<close>

definition whereEq :: "string \<Rightarrow> fval \<Rightarrow> collection \<Rightarrow> collection" where
  "whereEq f v coll = filter (\<lambda>d. get (snd d) f = Some (toFirestore v)) coll"

text \<open>
  \<^verbatim>\<open>where(f, '>=', Timestamp)\<close> and \<^verbatim>\<open>where(f, '<=', Timestamp)\<close>: a range filter
  only matches values of the operand's type.
\<close>

definition whereGe :: "string \<Rightarrow> int \<Rightarrow> collection \<Rightarrow> collection" where
  "whereGe f t coll =
     filter (\<lambda>d. case get (snd d) f of Some (VTime x) \<Rightarrow> t \<le> x | _ \<Rightarrow> False) coll"

definition whereLe :: "string \<Rightarrow> int \<Rightarrow> collection \<Rightarrow> collection" where
  "whereLe f t coll =
     filter (\<lambda>d. case get (snd d) f of Some (VTime x) \<Rightarrow> x \<le> t | _ \<Rightarrow> False) coll"

text \<open>
  \<^verbatim>\<open>orderBy(f, 'desc')\<close> reads the index on \<open>f\<close> backwards. The index holds the
  documents that have the field (a document without it is not in the result), ordered
  by the field's value and, among equal values, by document name. The order the database
  puts on values of all types is the parameter \<open>ord\<close>, a key into a linear order.
\<close>

definition withField :: "string \<Rightarrow> collection \<Rightarrow> (fval \<times> document) list" where
  "withField f coll = List.map_filter (\<lambda>d. map_option (\<lambda>v. (v, d)) (get (snd d) f)) coll"

definition orderByDesc :: "(fval \<Rightarrow> 'k::linorder) \<Rightarrow> string \<Rightarrow> collection \<Rightarrow> collection" where
  "orderByDesc ord f coll = map snd (rev (sort_key (\<lambda>p. ord (fst p)) (withField f coll)))"

section \<open>The visitor service\<close>

text \<open>\<^verbatim>\<open>snapshot.docs.map(d => this.mapDocToVisitor(d))\<close>: the first throw ends the map.\<close>

fun mapDocs :: "collection \<Rightarrow> error + visitor list" where
  "mapDocs [] = Inr []"
| "mapDocs (d # ds) =
     andThen (mapDocToVisitor d) (\<lambda>v. andThen (mapDocs ds) (\<lambda>vs. Inr (v # vs)))"

text \<open>
  \<^verbatim>\<open>.sort((a, b) => (b.checkInTime?.getTime() || 0) - (a.checkInTime?.getTime() || 0))\<close>:
  the array sort is stable.
\<close>

definition newestFirst :: "visitor list \<Rightarrow> visitor list" where
  "newestFirst vs = sort_key (\<lambda>v. - timeOrZero (checkInTime v)) vs"

text \<open>\<^verbatim>\<open>date >= bound\<close> and \<^verbatim>\<open>date <= bound\<close> on a mapped time field that passed the truthiness test.\<close>

fun dateGe :: "fval \<Rightarrow> int \<Rightarrow> bool" where
  "dateGe (VDate t) b = (b \<le> t)"
| "dateGe v b = False"

fun dateLe :: "fval \<Rightarrow> int \<Rightarrow> bool" where
  "dateLe (VDate t) b = (t \<le> b)"
| "dateLe v b = False"

subsection \<open>Active visitors\<close>

definition getActiveVisitors_indexed :: "(fval \<Rightarrow> 'k::linorder) \<Rightarrow> error option \<Rightarrow> database \<Rightarrow> error + visitor list" where
  "getActiveVisitors_indexed ord outcome db =
     andThen (getDocs outcome
        (orderByDesc ord ''checkInTime'' (whereEq ''status'' (VStr ''checked-in'') (visitors db))))
       mapDocs"

definition getActiveVisitors_fallback :: "error option \<Rightarrow> database \<Rightarrow> error + visitor list" where
  "getActiveVisitors_fallback outcome db =
     andThen (getDocs outcome (whereEq ''status'' (VStr ''checked-in'') (visitors db))) (\<lambda>docs.
     andThen (mapDocs docs) (\<lambda>vs. Inr (newestFirst vs)))"

definition getActiveVisitors :: "(fval \<Rightarrow> 'k::linorder) \<Rightarrow> error option \<Rightarrow> error option \<Rightarrow> database \<Rightarrow> error + visitor list" where
  "getActiveVisitors ord outcome outcome' db =
     (case getActiveVisitors_indexed ord outcome db of
        Inr vs \<Rightarrow> Inr vs
      | Inl e \<Rightarrow>
          if code e = Some ''failed-precondition''
          then getActiveVisitors_fallback outcome' db
          else Inr [])"

subsection \<open>Today's visitors\<close>

text \<open>
  \<open>todayStart\<close> is \<^verbatim>\<open>new Date()\<close> after \<^verbatim>\<open>setHours(0, 0, 0, 0)\<close>. The indexed path
  computes \<^verbatim>\<open>startOfDay\<close> and \<^verbatim>\<open>endOfDay\<close> and then builds its query from
  \<^verbatim>\<open>orderBy('checkInTime', 'desc')\<close> alone.
\<close>

definition getTodayVisitors_indexed :: "(fval \<Rightarrow> 'k::linorder) \<Rightarrow> int \<Rightarrow> error option \<Rightarrow> database \<Rightarrow> error + visitor list" where
  "getTodayVisitors_indexed ord todayStart outcome db =
     andThen (getDocs outcome (orderByDesc ord ''checkInTime'' (visitors db))) mapDocs"

definition getTodayVisitors_fallback :: "int \<Rightarrow> error option \<Rightarrow> database \<Rightarrow> error + visitor list" where
  "getTodayVisitors_fallback todayStart outcome db =
     andThen (getDocs outcome (visitors db)) (\<lambda>docs.
     andThen (mapDocs docs) (\<lambda>vs.
       Inr (newestFirst
         (filter (\<lambda>v. if \<not> truthy (checkInTime v) then False
                       else dateGe (checkInTime v) todayStart) vs))))"

definition getTodayVisitors :: "(fval \<Rightarrow> 'k::linorder) \<Rightarrow> int \<Rightarrow> error option \<Rightarrow> error option \<Rightarrow> database \<Rightarrow> error + visitor list" where
  "getTodayVisitors ord todayStart outcome outcome' db =
     (case getTodayVisitors_indexed ord todayStart outcome db of
        Inr vs \<Rightarrow> Inr vs
      | Inl e \<Rightarrow>
          if code e = Some ''failed-precondition''
          then getTodayVisitors_fallback todayStart outcome' db
          else Inr [])"

subsection \<open>Visitors by date range\<close>

text \<open>
  \<open>startOfDay\<close> and \<open>endOfDay\<close> are the date library's functions, taken as parameters.
  Any error of the indexed path leads to the fallback, whose own errors propagate.
\<close>

definition getVisitorsByDateRange_indexed :: "(int \<Rightarrow> int) \<Rightarrow> (int \<Rightarrow> int) \<Rightarrow> (fval \<Rightarrow> 'k::linorder) \<Rightarrow> error option \<Rightarrow> database \<Rightarrow> int \<Rightarrow> int \<Rightarrow> error + visitor list" where
  "getVisitorsByDateRange_indexed startOfDay endOfDay ord outcome db startDate endDate =
     andThen (getDocs outcome
        (orderByDesc ord ''checkInTime''
          (whereLe ''checkInTime'' (endOfDay endDate)
            (whereGe ''checkInTime'' (startOfDay startDate) (visitors db)))))
       mapDocs"

definition getVisitorsByDateRange_fallback :: "(int \<Rightarrow> int) \<Rightarrow> (int \<Rightarrow> int) \<Rightarrow> error option \<Rightarrow> database \<Rightarrow> int \<Rightarrow> int \<Rightarrow> error + visitor list" where
  "getVisitorsByDateRange_fallback startOfDay endOfDay outcome db startDate endDate =
     andThen (getDocs outcome (visitors db)) (\<lambda>docs.
     andThen (mapDocs docs) (\<lambda>vs.
       Inr (newestFirst
         (filter (\<lambda>v. truthy (checkInTime v)
                       \<and> dateGe (checkInTime v) (startOfDay startDate)
                       \<and> dateLe (checkInTime v) (endOfDay endDate)) vs))))"

definition getVisitorsByDateRange :: "(int \<Rightarrow> int) \<Rightarrow> (int \<Rightarrow> int) \<Rightarrow> (fval \<Rightarrow> 'k::linorder) \<Rightarrow> error option \<Rightarrow> error option \<Rightarrow> database \<Rightarrow> int \<Rightarrow> int \<Rightarrow> error + visitor list" where
  "getVisitorsByDateRange startOfDay endOfDay ord outcome outcome' db startDate endDate =
     (case getVisitorsByDateRange_indexed startOfDay endOfDay ord outcome db startDate endDate of
        Inr vs \<Rightarrow> Inr vs
      | Inl e \<Rightarrow> getVisitorsByDateRange_fallback startOfDay endOfDay outcome' db startDate endDate)"

subsection \<open>Backup reads and lookups\<close>

definition getAllVisitors :: "error option \<Rightarrow> database \<Rightarrow> error + visitor list" where
  "getAllVisitors outcome db =
     (case andThen (getDocs outcome (visitors db)) mapDocs of
        Inr vs \<Rightarrow> Inr vs
      | Inl e \<Rightarrow> Inr [])"

text \<open>\<^verbatim>\<open>{ id: doc.id, ...doc.data(), timestamp: doc.data().timestamp?.toDate() || null }\<close>\<close>

definition mapAuditLog :: "document \<Rightarrow> error + obj" where
  "mapAuditLog doc =
     andThen (toDateOpt (get (snd doc) ''timestamp'')) (\<lambda>t.
       Inr (put ''timestamp'' (orElse t VNull) (assign [(''id'', VStr (fst doc))] (snd doc))))"

fun mapAuditLogs :: "collection \<Rightarrow> error + obj list" where
  "mapAuditLogs [] = Inr []"
| "mapAuditLogs (d # ds) =
     andThen (mapAuditLog d) (\<lambda>l. andThen (mapAuditLogs ds) (\<lambda>ls. Inr (l # ls)))"

definition getAllAuditLogs :: "error option \<Rightarrow> database \<Rightarrow> error + obj list" where
  "getAllAuditLogs outcome db =
     (case andThen (getDocs outcome (audit_logs db)) mapAuditLogs of
        Inr ls \<Rightarrow> Inr ls
      | Inl e \<Rightarrow> Inr [])"

text \<open>The result \<open>None\<close> is \<^verbatim>\<open>null\<close>.\<close>

definition findVisitorByIdNumber_try :: "error option \<Rightarrow> database \<Rightarrow> fval \<Rightarrow> error + visitor option" where
  "findVisitorByIdNumber_try outcome db idNumber =
     andThen (getDocs outcome (whereEq ''visitorIdNumber'' idNumber (visitors db))) (\<lambda>docs.
       case docs of
         [] \<Rightarrow> Inr None
       | d # ds \<Rightarrow> andThen (mapDocToVisitor d) (\<lambda>v. Inr (Some v)))"

definition findVisitorByIdNumber :: "error option \<Rightarrow> database \<Rightarrow> fval \<Rightarrow> error + visitor option" where
  "findVisitorByIdNumber outcome db idNumber =
     (case findVisitorByIdNumber_try outcome db idNumber of
        Inr r \<Rightarrow> Inr r
      | Inl e \<Rightarrow> Inr None)"



subsection \<open>Generated identifiers\<close>

text \<open>
  \<^verbatim>\<open>toUpperCase()\<close> on the characters a base-36 rendering consists of: the letters
  \<^verbatim>\<open>a\<close> to \<^verbatim>\<open>z\<close> change, digits and punctuation stay.
\<close>

definition lowerCase :: string where
  "lowerCase = ''abcdefghijklmnopqrstuvwxyz''"

definition upperCase :: string where
  "upperCase = ''ABCDEFGHIJKLMNOPQRSTUVWXYZ''"

definition upperChar :: "char \<Rightarrow> char" where
  "upperChar c = (case map_of (zip lowerCase upperCase) c of Some u \<Rightarrow> u | None \<Rightarrow> c)"

definition toUpperCase :: "string \<Rightarrow> string" where
  "toUpperCase s = map upperChar s"

text \<open>
  \<open>now\<close> is \<^verbatim>\<open>Date.now()\<close> and \<open>random36\<close> is \<^verbatim>\<open>Math.random().toString(36)\<close>, the
  draw rendered in base 36 (\<^verbatim>\<open>0.\<close> followed by its digits); \<^verbatim>\<open>substr(2, 6)\<close> takes up to
  six characters from position 2.
\<close>

definition generateVisitorIdNumber :: "int \<Rightarrow> string \<Rightarrow> string" where
  "generateVisitorIdNumber now random36 =
     ''VID-'' @ showInt now @ ''-'' @ toUpperCase (take 6 (drop 2 random36))"

text \<open>\<^verbatim>\<open>JSON.stringify\<close> is the parameter \<open>stringify\<close>.\<close>

definition generateQRCode :: "(fval \<Rightarrow> string) \<Rightarrow> fval \<Rightarrow> int \<Rightarrow> string" where
  "generateQRCode stringify idNumber now =
     stringify (VMap [(''t'', VStr ''v''), (''id'', idNumber), (''ts'', VNum now)])"

definition generateBadgeNumber :: "int \<Rightarrow> string" where
  "generateBadgeNumber now = (let s = showInt now in CHR ''B'' # drop (length s - 6) s)"

subsection \<open>Writes\<close>

text \<open>
  What a write reads from the environment: the clock at each \<^verbatim>\<open>new Date()\<close> or
  \<^verbatim>\<open>Date.now()\<close>, the random draw, the generated document names, and the outcome of
  each call to the database. A write returns the database it leaves behind together with
  its result, since a call can store a document and still throw.
\<close>

record audit_env =
  audit_now :: int
  audit_doc :: string
  audit_outcome :: "error option"

definition present :: "(string \<times> fval option) list \<Rightarrow> obj" where
  "present kvs = List.map_filter (\<lambda>(k, v). map_option (Pair k) v) kvs"

text \<open>\<^verbatim>\<open>logAudit\<close> catches and logs its own failure.\<close>

definition logAudit :: "audit_env \<Rightarrow> database \<Rightarrow> string \<Rightarrow> string \<Rightarrow> string \<Rightarrow> obj \<Rightarrow> database" where
  "logAudit env db action userId visitorId details =
     (case addDoc (audit_outcome env) (audit_doc env) (audit_logs db)
             [(''timestamp'', VTime (audit_now env)),
              (''action'', VStr action),
              (''userId'', VStr userId),
              (''visitorId'', VStr visitorId),
              (''details'', VMap details)] of
        Inr (logs, i) \<Rightarrow> db\<lparr>audit_logs := logs\<rparr>
      | Inl e \<Rightarrow> db)"

record checkin_env =
  now_vid :: int
  random36 :: string
  now_qr :: int
  now_badge :: int
  now_checkin :: int
  now_screening :: int
  stringify :: "fval \<Rightarrow> string"
  new_doc :: string
  add_outcome :: "error option"
  checkin_audit :: audit_env

text \<open>\<^verbatim>\<open>Timestamp.fromDate(d)\<close> calls \<^verbatim>\<open>d.getTime()\<close>.\<close>

fun timestampFromDate :: "fval \<Rightarrow> error + fval" where
  "timestampFromDate (VDate t) = Inr (VTime t)"
| "timestampFromDate v = Inl TypeError"

definition withScreening :: "int \<Rightarrow> obj \<Rightarrow> obj \<Rightarrow> error + obj" where
  "withScreening now visitorData payload =
     (case get visitorData ''healthScreening'' of
        None \<Rightarrow> Inr payload
      | Some hs \<Rightarrow>
          if truthy hs then
            andThen (getProp hs ''screeningDate'') (\<lambda>sd.
            andThen (timestampFromDate (orElse sd (VDate now))) (\<lambda>ts.
              Inr (put ''healthScreening'' (VMap (put ''screeningDate'' ts (spread hs))) payload)))
          else Inr payload)"

definition checkInVisitor :: "checkin_env \<Rightarrow> database \<Rightarrow> obj \<Rightarrow> bool \<Rightarrow> database \<times> (error + visitor)" where
  "checkInVisitor env db visitorData isReturningVisitor =
     (let generated = VStr (generateVisitorIdNumber (now_vid env) (random36 env));
          idNumber =
            (case get visitorData ''visitorIdNumber'' of
               Some v \<Rightarrow> if isReturningVisitor \<and> truthy v then v else generated
             | None \<Rightarrow> generated);
          qr = generateQRCode (stringify env) idNumber (now_qr env);
          badge = generateBadgeNumber (now_badge env);
          visitorPayload = assign visitorData
            [(''visitorIdNumber'', idNumber),
             (''qrCode'', VStr qr),
             (''badgeNumber'', VStr badge),
             (''checkInTime'', VTime (now_checkin env)),
             (''status'', VStr ''checked-in'')]
      in case withScreening (now_screening env) visitorData visitorPayload of
           Inl e \<Rightarrow> (db, Inl e)
         | Inr payload \<Rightarrow>
             (case addDoc (add_outcome env) (new_doc env) (visitors db) payload of
                Inl e \<Rightarrow> (db, Inl e)
              | Inr (docs, docId) \<Rightarrow>
                  (logAudit (checkin_audit env) (db\<lparr>visitors := docs\<rparr>)
                     ''visitor_check_in'' ''system'' docId
                     (present [(''visitorName'', get visitorData ''fullName''),
                               (''resident'', get visitorData ''residentName''),
                               (''room'', get visitorData ''roomNumber'')]),
                   mapDocToVisitor (docId, payload))))"

text \<open>
  \<^verbatim>\<open>doc(db, 'visitors', id)\<close> builds the reference of a write without contacting the
  database. The client library refuses an id that contains \<^verbatim>\<open>//\<close>, splits the id at
  \<^verbatim>\<open>/\<close> and drops the empty segments (leading and trailing slashes are ignored), and
  refuses a path whose number of segments, the collection's one included, is odd. A refusal
  is thrown by the call itself, as \<^verbatim>\<open>invalid-argument\<close>. An id that is a document name
  gives the reference of that document.
\<close>

fun splitSlash :: "string \<Rightarrow> string list" where
  "splitSlash [] = [[]]"
| "splitSlash (c # cs) =
     (if c = CHR ''/'' then [] # splitSlash cs
      else (c # hd (splitSlash cs)) # tl (splitSlash cs))"

fun doubleSlash :: "string \<Rightarrow> bool" where
  "doubleSlash (a # b # cs) = ((a = CHR ''/'' \<and> b = CHR ''/'') \<or> doubleSlash (b # cs))"
| "doubleSlash cs = False"

definition segments :: "string \<Rightarrow> string list" where
  "segments path = filter (\<lambda>s. s \<noteq> []) (splitSlash path)"

definition doc :: "string \<Rightarrow> error + reference" where
  "doc path =
     (if doubleSlash path then Inl (FirestoreError ''invalid-argument'')
      else if even (Suc (length (segments path))) then Inr (segments path)
      else Inl (FirestoreError ''invalid-argument''))"

record checkout_env =
  now_checkout :: int
  update_outcome :: "error option"
  audit_stamp :: string
  checkout_audit :: audit_env

text \<open>
  \<open>audit_stamp\<close> is \<^verbatim>\<open>new Date().toISOString()\<close>. The reference is built inside the
  \<^verbatim>\<open>try\<close> block, so a refused id is rethrown like a rejected write.
\<close>

definition checkOutVisitor :: "checkout_env \<Rightarrow> database \<Rightarrow> string \<Rightarrow> database \<times> (error + unit)" where
  "checkOutVisitor env db visitorId =
     (case andThen (doc visitorId) (\<lambda>visitorRef.
             updateDoc (update_outcome env) (visitors db) visitorRef
               [(''checkOutTime'', VTime (now_checkout env)),
                (''status'', VStr ''checked-out'')]) of
        Inl e \<Rightarrow> (db, Inl e)
      | Inr docs \<Rightarrow>
          (logAudit (checkout_audit env) (db\<lparr>visitors := docs\<rparr>)
             ''visitor_check_out'' ''system'' visitorId
             [(''timestamp'', VStr (audit_stamp env))],
           Inr ()))"

text \<open>
  \<^verbatim>\<open>emergencyEvacuation\<close> maps the listed ids to the promises of their writes and awaits
  \<^verbatim>\<open>Promise.all\<close> of them. The map runs to its end before any write settles: for each
  id in turn it builds the reference and starts the write. When \<^verbatim>\<open>doc\<close> refuses an id,
  its throw ends the map and the call: the writes of the later ids are not started, and
  those already started stay under way with nobody awaiting them. \<open>promises\<close> gives the
  references of the writes that are started, and the error thrown, if any.
\<close>

fun promises :: "string list \<Rightarrow> reference list \<times> error option" where
  "promises [] = ([], None)"
| "promises (v # vs) =
     (case doc v of
        Inl e \<Rightarrow> ([], Some e)
      | Inr ref \<Rightarrow> (case promises vs of (refs, thrown) \<Rightarrow> (ref # refs, thrown)))"

text \<open>
  The \<open>i\<close>-th write that is started reads the clock \<open>clock i\<close> and has the outcome
  \<open>outcome i\<close>. \<open>evacuate\<close> returns the collection once every started write has
  settled, with the errors of the writes that were rejected. When the map has not thrown,
  \<^verbatim>\<open>Promise.all\<close> rejects with one of them (here the first in the list) and resolves
  when there is none.
\<close>

fun evacuate :: "(nat \<Rightarrow> int) \<Rightarrow> (nat \<Rightarrow> error option) \<Rightarrow> nat \<Rightarrow> reference list \<Rightarrow> collection \<Rightarrow> collection \<times> error list" where
  "evacuate clock outcome i [] coll = (coll, [])"
| "evacuate clock outcome i (v # vs) coll =
     (case updateDoc (outcome i) coll v
             [(''status'', VStr ''emergency-evacuated''),
              (''checkOutTime'', VTime (clock i))] of
        Inl e \<Rightarrow> (case evacuate clock outcome (Suc i) vs coll of (c, es) \<Rightarrow> (c, e # es))
      | Inr coll' \<Rightarrow> evacuate clock outcome (Suc i) vs coll')"

definition emergencyEvacuation :: "(nat \<Rightarrow> int) \<Rightarrow> (nat \<Rightarrow> error option) \<Rightarrow> database \<Rightarrow> string list \<Rightarrow> database \<times> (error + unit)" where
  "emergencyEvacuation clock outcome db visitorIds =
     (case promises visitorIds of
        (refs, thrown) \<Rightarrow>
          (case evacuate clock outcome 0 refs (visitors db) of
             (docs, es) \<Rightarrow>
               (db\<lparr>visitors := docs\<rparr>,
                case thrown of
                  Some e \<Rightarrow> Inl e
                | None \<Rightarrow> (case es of [] \<Rightarrow> Inr () | e # es' \<Rightarrow> Inl e))))"

text \<open>The caller in the application shell; the result is the text of its alert.\<close>

definition handleEmergencyEvacuation :: "(nat \<Rightarrow> int) \<Rightarrow> (nat \<Rightarrow> error option) \<Rightarrow> database \<Rightarrow> string list \<Rightarrow> database \<times> string" where
  "handleEmergencyEvacuation clock outcome db visitorIds =
     (case emergencyEvacuation clock outcome db visitorIds of
        (db', Inr u) \<Rightarrow>
          (db', ''Emergency evacuation completed for '' @ showNat (length visitorIds) @ '' visitors.'')
      | (db', Inl e) \<Rightarrow> (db', ''Emergency evacuation failed. Please try again.''))"

section \<open>Predicates and sample data of the statements\<close>

text \<open>
  The time fields that \<^verbatim>\<open>?.toDate()\<close> accepts: absent, \<^verbatim>\<open>null\<close>, or a Timestamp.
\<close>

fun timeLike :: "fval option \<Rightarrow> bool" where
  "timeLike None = True"
| "timeLike (Some VNull) = True"
| "timeLike (Some (VTime t)) = True"
| "timeLike (Some v) = False"

definition screeningConvertible :: "obj \<Rightarrow> bool" where
  "screeningConvertible data =
     (case get data ''healthScreening'' of
        None \<Rightarrow> True
      | Some hs \<Rightarrow>
          if truthy hs
          then (case getProp hs ''screeningDate'' of Inr sd \<Rightarrow> timeLike sd | Inl e \<Rightarrow> False)
          else True)"

definition convertible :: "obj \<Rightarrow> bool" where
  "convertible data =
     (screeningConvertible data
      \<and> timeLike (get data ''checkInTime'')
      \<and> timeLike (get data ''checkOutTime''))"

text \<open>
  A sample of the database's value order, for evaluating the indexed queries on concrete
  collections: timestamps in chronological order.
\<close>

definition exampleOrd :: "fval \<Rightarrow> int" where
  "exampleOrd v = (case v of VTime t \<Rightarrow> t | _ \<Rightarrow> 0)"

text \<open>A database with a visitor whose \<^verbatim>\<open>checkInTime\<close> was stored as text.\<close>

definition malformedDb :: database where
  "malformedDb =
     \<lparr> visitors = [(''v1'', [(''fullName'', VStr ''Ann''), (''status'', VStr ''checked-in''),
                          (''visitorIdNumber'', VStr ''VID-1-AAAAAA''),
                          (''checkInTime'', VStr ''2024-05-01'')])],
       audit_logs = [(''l1'', [(''action'', VStr ''visitor_check_in''), (''timestamp'', VNum 5)])] \<rparr>"

text \<open>The visitor id number and the payload that \<^verbatim>\<open>checkInVisitor\<close> builds, by name.\<close>

definition idNumberOf :: "checkin_env \<Rightarrow> obj \<Rightarrow> bool \<Rightarrow> fval" where
  "idNumberOf env visitorData isReturningVisitor =
     (case get visitorData ''visitorIdNumber'' of
        Some v \<Rightarrow> if isReturningVisitor \<and> truthy v then v
                  else VStr (generateVisitorIdNumber (now_vid env) (random36 env))
      | None \<Rightarrow> VStr (generateVisitorIdNumber (now_vid env) (random36 env)))"

definition basePayload :: "checkin_env \<Rightarrow> obj \<Rightarrow> bool \<Rightarrow> obj" where
  "basePayload env visitorData isReturningVisitor =
     assign visitorData
       [(''visitorIdNumber'', idNumberOf env visitorData isReturningVisitor),
        (''qrCode'', VStr (generateQRCode (stringify env)
                        (idNumberOf env visitorData isReturningVisitor) (now_qr env))),
        (''badgeNumber'', VStr (generateBadgeNumber (now_badge env))),
        (''checkInTime'', VTime (now_checkin env)),
        (''status'', VStr ''checked-in'')]"



text \<open>A database whose only visitor checked in and out on an earlier day.\<close>

definition yesterdayDb :: database where
  "yesterdayDb =
     \<lparr> visitors = [(''v1'', [(''fullName'', VStr ''Ann''), (''status'', VStr ''checked-out''),
                          (''checkInTime'', VTime 1000), (''checkOutTime'', VTime 2000)])],
       audit_logs = [] \<rparr>"

definition emptyDb :: database where
  "emptyDb = \<lparr> visitors = [], audit_logs = [] \<rparr>"

text \<open>An environment of a check-in, and the data of two visitors.\<close>

definition sampleEnv :: "string \<Rightarrow> checkin_env" where
  "sampleEnv docName =
     \<lparr> now_vid = 1714550000123, random36 = ''0.k3j9x2m1pq'', now_qr = 1714550000123,
       now_badge = 1714550000124, now_checkin = 1714550000124, now_screening = 1714550000124,
       stringify = (\<lambda>v. ''{}''), new_doc = docName, add_outcome = None,
       checkin_audit = \<lparr> audit_now = 1714550000130, audit_doc = ''log-'' @ docName,
                         audit_outcome = None \<rparr> \<rparr>"

definition annData :: obj where
  "annData = [(''fullName'', VStr ''Ann''), (''residentName'', VStr ''Ruth''),
              (''roomNumber'', VStr ''12''), (''purpose'', VStr ''visit'')]"

definition bobData :: obj where
  "bobData = [(''fullName'', VStr ''Bob''), (''residentName'', VStr ''Saul''),
              (''roomNumber'', VStr ''7''), (''purpose'', VStr ''delivery'')]"


text \<open>
  The documents, and the visitors, whose \<^verbatim>\<open>checkInTime\<close> lies within inclusive bounds.
\<close>

definition inRange :: "int \<Rightarrow> int \<Rightarrow> document \<Rightarrow> bool" where
  "inRange lo hi d =
     (case get (snd d) ''checkInTime'' of Some (VTime t) \<Rightarrow> lo \<le> t \<and> t \<le> hi | _ \<Rightarrow> False)"

definition withinBounds :: "int \<Rightarrow> int \<Rightarrow> visitor \<Rightarrow> bool" where
  "withinBounds lo hi v = (case checkInTime v of VDate t \<Rightarrow> lo \<le> t \<and> t \<le> hi | _ \<Rightarrow> False)"

text \<open>A sample of the date library's functions (days of UTC), and visitors around a day's ends.\<close>

definition utcStartOfDay :: "int \<Rightarrow> int" where
  "utcStartOfDay t = t - t mod 86400000"

definition utcEndOfDay :: "int \<Rightarrow> int" where
  "utcEndOfDay t = t - t mod 86400000 + 86399999"

definition rangeDb :: database where
  "rangeDb =
     \<lparr> visitors =
         [(''v1'', [(''fullName'', VStr ''Ann''), (''checkInTime'', VTime 1714521599999)]),
          (''v2'', [(''fullName'', VStr ''Bob''), (''checkInTime'', VTime 1714521600000)]),
          (''v3'', [(''fullName'', VStr ''Cid''), (''checkInTime'', VTime 1714607999999)]),
          (''v4'', [(''fullName'', VStr ''Dee''), (''checkInTime'', VTime 1714608000000)]),
          (''v5'', [(''fullName'', VStr ''Eve'')])],
       audit_logs = [] \<rparr>"

text \<open>
  A stored document that the active queries select by status, and one the index on
  \<^verbatim>\<open>checkInTime\<close> holds.
\<close>

definition storedActive :: "document \<Rightarrow> bool" where
  "storedActive d = (get (snd d) ''status'' = Some (VStr ''checked-in''))"

definition hasCheckInTime :: "document \<Rightarrow> bool" where
  "hasCheckInTime d = (get (snd d) ''checkInTime'' \<noteq> None)"

text \<open>
  A database with a checked-in visitor that has no \<^verbatim>\<open>checkInTime\<close>, one that has
  it, a checked-out visitor, and a document without a status.
\<close>

definition mixedDb :: database where
  "mixedDb =
     \<lparr> visitors =
         [(''a1'', [(''fullName'', VStr ''Ann''), (''status'', VStr ''checked-in'')]),
          (''a2'', [(''fullName'', VStr ''Bob''), (''status'', VStr ''checked-in''),
                    (''checkInTime'', VTime 5)]),
          (''a3'', [(''fullName'', VStr ''Cid''), (''status'', VStr ''checked-out''),
                    (''checkInTime'', VTime 9), (''checkOutTime'', VTime 11)]),
          (''a4'', [(''fullName'', VStr ''Dee''), (''checkInTime'', VTime 7)])],
       audit_logs = [] \<rparr>"

text \<open>The fields of a document after \<^verbatim>\<open>checkOutVisitor\<close>, and an environment of a check-out.\<close>

definition checkedOut :: "int \<Rightarrow> obj \<Rightarrow> obj" where
  "checkedOut now data =
     assign data (toFirestoreObj [(''checkOutTime'', VTime now), (''status'', VStr ''checked-out'')])"

definition sampleCheckout :: checkout_env where
  "sampleCheckout =
     \<lparr> now_checkout = 20, update_outcome = None, audit_stamp = ''1970-01-01T00:00:00.020Z'',
       checkout_audit = \<lparr> audit_now = 21, audit_doc = ''log-1'', audit_outcome = None \<rparr> \<rparr>"

text \<open>
  The emergency evacuation, record by record: the fields of an evacuated document, the
  writes to one document in the order they were started, the last write through a
  reference that the database accepted, and the errors of the rejected writes, given the
  references that name a document. \<open>started\<close> is the number of writes that are started.
\<close>

definition evacuated :: "int \<Rightarrow> obj \<Rightarrow> obj" where
  "evacuated now data =
     assign data (toFirestoreObj [(''status'', VStr ''emergency-evacuated''),
                                  (''checkOutTime'', VTime now)])"

fun evacDoc :: "(nat \<Rightarrow> int) \<Rightarrow> (nat \<Rightarrow> error option) \<Rightarrow> nat \<Rightarrow> reference list \<Rightarrow> document \<Rightarrow> document" where
  "evacDoc clock outcome i [] d = d"
| "evacDoc clock outcome i (v # vs) d =
     evacDoc clock outcome (Suc i) vs
       (if v = [fst d] \<and> outcome i = None then (fst d, evacuated (clock i) (snd d)) else d)"

fun lastAccepted :: "(nat \<Rightarrow> error option) \<Rightarrow> nat \<Rightarrow> reference list \<Rightarrow> reference \<Rightarrow> nat option" where
  "lastAccepted outcome i [] x = None"
| "lastAccepted outcome i (v # vs) x =
     (case lastAccepted outcome (Suc i) vs x of
        Some j \<Rightarrow> Some j
      | None \<Rightarrow> if v = x \<and> outcome i = None then Some i else None)"

fun evacErrors :: "(nat \<Rightarrow> error option) \<Rightarrow> nat \<Rightarrow> reference list \<Rightarrow> reference set \<Rightarrow> error list" where
  "evacErrors outcome i [] names = []"
| "evacErrors outcome i (v # vs) names =
     (case outcome i of
        Some e \<Rightarrow> e # evacErrors outcome (Suc i) vs names
      | None \<Rightarrow>
          if v \<in> names then evacErrors outcome (Suc i) vs names
          else FirestoreError ''not-found'' # evacErrors outcome (Suc i) vs names)"

definition started :: "string list \<Rightarrow> nat" where
  "started visitorIds = length (fst (promises visitorIds))"

text \<open>An id that is a document name: not empty, and without \<^verbatim>\<open>/\<close>.\<close>

definition plainName :: "string \<Rightarrow> bool" where
  "plainName i = (i \<noteq> [] \<and> CHR ''/'' \<notin> set i)"

text \<open>
  Three checked-in visitors, an environment that rejects the second write, and one in
  which the clock advances by a millisecond per write and the database accepts every write.
\<close>

definition wardDb :: database where
  "wardDb =
     \<lparr> visitors =
         [(''b1'', [(''fullName'', VStr ''Ann''), (''status'', VStr ''checked-in''),
                    (''checkInTime'', VTime 5)]),
          (''b2'', [(''fullName'', VStr ''Bob''), (''status'', VStr ''checked-in''),
                    (''checkInTime'', VTime 6)]),
          (''b3'', [(''fullName'', VStr ''Cid''), (''status'', VStr ''checked-in''),
                    (''checkInTime'', VTime 7)])],
       audit_logs = [] \<rparr>"

definition secondRejected :: "nat \<Rightarrow> error option" where
  "secondRejected j = (if j = 1 then Some (FirestoreError ''unavailable'') else None)"

definition wardClock :: "nat \<Rightarrow> int" where
  "wardClock j = 100 + int j"

definition allAccepted :: "nat \<Rightarrow> error option" where
  "allAccepted j = None"

text \<open>
  The check-in time of a stored document in milliseconds, a value order that puts
  timestamps in chronological order, and collections in which every document has a
  Timestamp as its \<^verbatim>\<open>checkInTime\<close>.
\<close>

definition checkInMillis :: "document \<Rightarrow> int" where
  "checkInMillis d = (case get (snd d) ''checkInTime'' of Some (VTime t) \<Rightarrow> t | _ \<Rightarrow> 0)"

definition chronological :: "(fval \<Rightarrow> 'k::linorder) \<Rightarrow> bool" where
  "chronological ord = (\<forall>a b. (ord (VTime a) \<le> ord (VTime b)) = (a \<le> b))"

definition timestamped :: "collection \<Rightarrow> bool" where
  "timestamped docs = (\<forall>d\<in>set docs. \<exists>t. get (snd d) ''checkInTime'' = Some (VTime t))"

text \<open>Two visitors who checked in at the same millisecond.\<close>

definition tieDb :: database where
  "tieDb =
     \<lparr> visitors =
         [(''c1'', [(''fullName'', VStr ''Ann''), (''status'', VStr ''checked-in''),
                    (''checkInTime'', VTime 5)]),
          (''c2'', [(''fullName'', VStr ''Bob''), (''status'', VStr ''checked-in''),
                    (''checkInTime'', VTime 5)])],
       audit_logs = [] \<rparr>"

section \<open>Properties\<close>

subsection \<open>Sequencing and conversion\<close>

lemma andThen_Inr_iff:
  "andThen m f = Inr y \<longleftrightarrow> (\<exists>x. m = Inr x \<and> f x = Inr y)"
  by (cases m) simp_all

lemma andThen_Inl_iff:
  "andThen m f = Inl e \<longleftrightarrow> m = Inl e \<or> (\<exists>x. m = Inr x \<and> f x = Inl e)"
  by (cases m) simp_all

lemma toDateOpt_timeLike: "timeLike x \<Longrightarrow> \<exists>d. toDateOpt x = Inr d"
  by (induction x rule: timeLike.induct) simp_all

lemma toDateOpt_not_timeLike: "\<not> timeLike x \<Longrightarrow> toDateOpt x = Inl TypeError"
  by (induction x rule: timeLike.induct) simp_all

lemma getProp_truthy: "truthy hs \<Longrightarrow> getProp hs k \<noteq> Inl e"
  by (cases hs) simp_all

lemma toDateOpt_Inr:
  "toDateOpt x = Inr d \<Longrightarrow> orElse d VNull = (case x of Some (VTime t) \<Rightarrow> VDate t | _ \<Rightarrow> VNull)"
  by (induction x rule: toDateOpt.induct) auto

lemma mapHealthScreening_ok:
  "screeningConvertible data \<Longrightarrow> \<exists>hs. mapHealthScreening data = Inr hs"
  unfolding screeningConvertible_def mapHealthScreening_def
  by (auto split: option.splits sum.splits if_splits dest!: toDateOpt_timeLike)

lemma mapHealthScreening_fail:
  "\<not> screeningConvertible data \<Longrightarrow> mapHealthScreening data = Inl TypeError"
  unfolding screeningConvertible_def mapHealthScreening_def
  by (auto split: option.splits sum.splits if_splits simp: toDateOpt_not_timeLike getProp_truthy)

lemma mapHealthScreening_missing:
  "get data ''healthScreening'' = None \<Longrightarrow> mapHealthScreening data = Inr VNull"
  by (simp add: mapHealthScreening_def)

lemma mapDocToVisitor_fail:
  assumes "\<not> convertible data"
  shows "mapDocToVisitor (i, data) = Inl TypeError"
proof (cases "screeningConvertible data")
  case False
  then show ?thesis
    by (simp add: mapDocToVisitor_def mapHealthScreening_fail)
next
  case True
  then obtain hs where hs: "mapHealthScreening data = Inr hs"
    using mapHealthScreening_ok by blast
  show ?thesis
  proof (cases "timeLike (get data ''checkInTime'')")
    case False
    then show ?thesis
      by (simp add: mapDocToVisitor_def hs toDateOpt_not_timeLike)
  next
    case cin: True
    then obtain d where d: "toDateOpt (get data ''checkInTime'') = Inr d"
      using toDateOpt_timeLike by blast
    from assms True cin have "\<not> timeLike (get data ''checkOutTime'')"
      by (simp add: convertible_def)
    then show ?thesis
      by (simp add: mapDocToVisitor_def hs d toDateOpt_not_timeLike)
  qed
qed

lemma mapDocToVisitor_ok:
  assumes "convertible data"
  shows "\<exists>v. mapDocToVisitor (i, data) = Inr v"
proof -
  from assms obtain hs where hs: "mapHealthScreening data = Inr hs"
    using mapHealthScreening_ok by (auto simp: convertible_def)
  from assms obtain d where d: "toDateOpt (get data ''checkInTime'') = Inr d"
    using toDateOpt_timeLike by (auto simp: convertible_def)
  from assms obtain d' where d': "toDateOpt (get data ''checkOutTime'') = Inr d'"
    using toDateOpt_timeLike by (auto simp: convertible_def)
  show ?thesis
    by (simp add: mapDocToVisitor_def hs d d')
qed

lemma mapDocToVisitor_fields:
  assumes "mapDocToVisitor (i, data) = Inr v"
  shows "visitor_id v = i"
    and "fullName v = orElse (get data ''fullName'') (VStr [])"
    and "phoneNumber v = orElse (get data ''phoneNumber'') (VStr [])"
    and "photoURL v = orElse (get data ''photoURL'') VNull"
    and "residentName v = orElse (get data ''residentName'') (VStr [])"
    and "roomNumber v = orElse (get data ''roomNumber'') (VStr [])"
    and "purpose v = orElse (get data ''purpose'') (VStr [])"
    and "visitorIdNumber v = orElse (get data ''visitorIdNumber'') (VStr [])"
    and "status v = orElse (get data ''status'') (VStr ''checked-in'')"
    and "qrCode v = orElse (get data ''qrCode'') (VStr [])"
    and "badgeNumber v = orElse (get data ''badgeNumber'') (VStr [])"
    and "checkInTime v = (case get data ''checkInTime'' of Some (VTime t) \<Rightarrow> VDate t | _ \<Rightarrow> VNull)"
    and "checkOutTime v = (case get data ''checkOutTime'' of Some (VTime t) \<Rightarrow> VDate t | _ \<Rightarrow> VNull)"
    and "mapHealthScreening data = Inr (healthScreening v)"
  using assms
  by (auto simp: mapDocToVisitor_def andThen_Inr_iff dest: toDateOpt_Inr)

lemma mapDocs_member:
  "mapDocs docs = Inr vs \<Longrightarrow> d \<in> set docs \<Longrightarrow> \<exists>v\<in>set vs. mapDocToVisitor d = Inr v"
  by (induction docs arbitrary: vs) (auto simp: andThen_Inr_iff)

subsection \<open>Mapping a stored document\<close>

text \<open>
  Claim C10, as the code has it. \<^verbatim>\<open>mapDocToVisitor\<close> returns a visitor exactly for the
  documents whose \<^verbatim>\<open>checkInTime\<close>, \<^verbatim>\<open>checkOutTime\<close> and screening date are absent,
  \<^verbatim>\<open>null\<close> or a Timestamp, and throws a \<^verbatim>\<open>TypeError\<close> on every other document. Where
  it returns, a missing string field is the empty string, a missing \<^verbatim>\<open>checkInTime\<close>,
  \<^verbatim>\<open>checkOutTime\<close> or \<^verbatim>\<open>healthScreening\<close> is \<^verbatim>\<open>null\<close>, and a missing status is
  \<^verbatim>\<open>'checked-in'\<close>; so every read that maps a document without a status presents
  it as checked in.
\<close>

theorem mapDocToVisitor_defaults:
  "(if convertible data
    then \<exists>v. mapDocToVisitor (i, data) = Inr v
           \<and> visitor_id v = i
           \<and> (get data ''fullName'' = None \<longrightarrow> fullName v = VStr [])
           \<and> (get data ''phoneNumber'' = None \<longrightarrow> phoneNumber v = VStr [])
           \<and> (get data ''residentName'' = None \<longrightarrow> residentName v = VStr [])
           \<and> (get data ''roomNumber'' = None \<longrightarrow> roomNumber v = VStr [])
           \<and> (get data ''purpose'' = None \<longrightarrow> purpose v = VStr [])
           \<and> (get data ''visitorIdNumber'' = None \<longrightarrow> visitorIdNumber v = VStr [])
           \<and> (get data ''qrCode'' = None \<longrightarrow> qrCode v = VStr [])
           \<and> (get data ''badgeNumber'' = None \<longrightarrow> badgeNumber v = VStr [])
           \<and> (get data ''checkInTime'' = None \<longrightarrow> checkInTime v = VNull)
           \<and> (get data ''checkOutTime'' = None \<longrightarrow> checkOutTime v = VNull)
           \<and> (get data ''healthScreening'' = None \<longrightarrow> healthScreening v = VNull)
           \<and> (get data ''status'' = None \<longrightarrow> status v = VStr ''checked-in'')
    else mapDocToVisitor (i, data) = Inl TypeError)
   \<and> (\<forall>docs vs. (i, data) \<in> set docs \<and> mapDocs docs = Inr vs \<and> get data ''status'' = None
        \<longrightarrow> (\<exists>v\<in>set vs. visitor_id v = i \<and> status v = VStr ''checked-in''))"
proof (intro conjI allI impI)
  show "if convertible data
    then \<exists>v. mapDocToVisitor (i, data) = Inr v
           \<and> visitor_id v = i
           \<and> (get data ''fullName'' = None \<longrightarrow> fullName v = VStr [])
           \<and> (get data ''phoneNumber'' = None \<longrightarrow> phoneNumber v = VStr [])
           \<and> (get data ''residentName'' = None \<longrightarrow> residentName v = VStr [])
           \<and> (get data ''roomNumber'' = None \<longrightarrow> roomNumber v = VStr [])
           \<and> (get data ''purpose'' = None \<longrightarrow> purpose v = VStr [])
           \<and> (get data ''visitorIdNumber'' = None \<longrightarrow> visitorIdNumber v = VStr [])
           \<and> (get data ''qrCode'' = None \<longrightarrow> qrCode v = VStr [])
           \<and> (get data ''badgeNumber'' = None \<longrightarrow> badgeNumber v = VStr [])
           \<and> (get data ''checkInTime'' = None \<longrightarrow> checkInTime v = VNull)
           \<and> (get data ''checkOutTime'' = None \<longrightarrow> checkOutTime v = VNull)
           \<and> (get data ''healthScreening'' = None \<longrightarrow> healthScreening v = VNull)
           \<and> (get data ''status'' = None \<longrightarrow> status v = VStr ''checked-in'')
    else mapDocToVisitor (i, data) = Inl TypeError"
  proof (cases "convertible data")
    case False
    then show ?thesis by (simp add: mapDocToVisitor_fail)
  next
    case True
    then obtain v where v: "mapDocToVisitor (i, data) = Inr v"
      using mapDocToVisitor_ok by blast
    note f = mapDocToVisitor_fields [OF v]
    have "get data ''healthScreening'' = None \<longrightarrow> healthScreening v = VNull"
      using f(14) by (auto simp: mapHealthScreening_missing)
    with True v show ?thesis
      by (simp add: f)
  qed
next
  fix docs vs
  assume a: "(i, data) \<in> set docs \<and> mapDocs docs = Inr vs \<and> get data ''status'' = None"
  then obtain v where v: "v \<in> set vs" "mapDocToVisitor (i, data) = Inr v"
    using mapDocs_member by blast
  from a have "status v = VStr ''checked-in''" "visitor_id v = i"
    by (simp_all add: mapDocToVisitor_fields [OF v(2)])
  with v show "\<exists>v\<in>set vs. visitor_id v = i \<and> status v = VStr ''checked-in''"
    by blast
qed

theorem mapDocToVisitor_defaults_witness:
  "convertible [(''test'', VBool False), (''ts'', VTime 7)]
   \<and> (\<exists>v. mapDocToVisitor (''t1'', [(''test'', VBool False), (''ts'', VTime 7)]) = Inr v
          \<and> visitor_id v = ''t1'' \<and> fullName v = VStr [] \<and> checkInTime v = VNull
          \<and> healthScreening v = VNull \<and> status v = VStr ''checked-in'')
   \<and> (\<exists>vs. mapDocs [(''t1'', [(''test'', VBool False), (''ts'', VTime 7)])] = Inr vs
          \<and> (\<exists>v\<in>set vs. visitor_id v = ''t1'' \<and> status v = VStr ''checked-in''))"
proof -
  let ?d = "[(''test'', VBool False), (''ts'', VTime 7)]"
  have c: "convertible ?d"
    by (simp add: convertible_def screeningConvertible_def get_def)
  have n: "get ?d ''fullName'' = None" "get ?d ''checkInTime'' = None"
    "get ?d ''healthScreening'' = None" "get ?d ''status'' = None"
    by (simp_all add: get_def)
  from mapDocToVisitor_defaults [of ?d "''t1''"] c n
  obtain v where v: "mapDocToVisitor (''t1'', ?d) = Inr v" "visitor_id v = ''t1''"
    "fullName v = VStr []" "checkInTime v = VNull" "healthScreening v = VNull"
    "status v = VStr ''checked-in''"
    by auto
  have m: "mapDocs [(''t1'', ?d)] = Inr [v]"
    by (simp add: v)
  from c v m show ?thesis by simp
qed

text \<open>
  Claim C10 as stated says that the mapping is total over arbitrary stored documents.
  A document whose \<^verbatim>\<open>checkInTime\<close> is a string makes it throw.
\<close>

theorem mapDocToVisitor_not_total:
  "mapDocToVisitor (''v1'', [(''fullName'', VStr ''Ann''), (''checkInTime'', VStr ''2024-05-01'')])
     = Inl TypeError"
  by (simp add: mapDocToVisitor_def mapHealthScreening_def get_def)

subsection \<open>Errors of the reads\<close>

text \<open>
  Claim C7, as the code has it. An error other than the missing index
  (\<^verbatim>\<open>failed-precondition\<close>) that is raised inside the \<^verbatim>\<open>try\<close> block of a read, by
  the first query or by the mapping of its documents, is swallowed:
  \<^verbatim>\<open>getActiveVisitors\<close>, \<^verbatim>\<open>getTodayVisitors\<close>, \<^verbatim>\<open>getAllVisitors\<close> and
  \<^verbatim>\<open>getAllAuditLogs\<close> return the empty list and \<^verbatim>\<open>findVisitorByIdNumber\<close> returns
  \<^verbatim>\<open>null\<close>. On a missing index \<^verbatim>\<open>getActiveVisitors\<close> and \<^verbatim>\<open>getTodayVisitors\<close>
  run their fallback inside the \<^verbatim>\<open>catch\<close> block, and the result of the fallback is the
  result of the call: an error of the fallback, of its read or of the mapping of a
  document, reaches the caller.
\<close>

theorem query_errors_swallowed:
  "code e \<noteq> Some ''failed-precondition'' \<Longrightarrow>
     getActiveVisitors ord (Some e) outcome' db = Inr []
   \<and> getTodayVisitors ord todayStart (Some e) outcome' db = Inr []
   \<and> getAllVisitors (Some e) db = Inr []
   \<and> getAllAuditLogs (Some e) db = Inr []
   \<and> findVisitorByIdNumber (Some e) db idNumber = Inr None
   \<and> (getActiveVisitors_indexed ord outcome db = Inl e
        \<longrightarrow> getActiveVisitors ord outcome outcome' db = Inr [])
   \<and> (getTodayVisitors_indexed ord todayStart outcome db = Inl e
        \<longrightarrow> getTodayVisitors ord todayStart outcome outcome' db = Inr [])
   \<and> (andThen (getDocs outcome (visitors db)) mapDocs = Inl e
        \<longrightarrow> getAllVisitors outcome db = Inr [])
   \<and> (andThen (getDocs outcome (audit_logs db)) mapAuditLogs = Inl e
        \<longrightarrow> getAllAuditLogs outcome db = Inr [])
   \<and> (findVisitorByIdNumber_try outcome db idNumber = Inl e
        \<longrightarrow> findVisitorByIdNumber outcome db idNumber = Inr None)
   \<and> (\<forall>f. getActiveVisitors_indexed ord outcome db = Inl f \<and> code f = Some ''failed-precondition''
        \<longrightarrow> getActiveVisitors ord outcome outcome' db = getActiveVisitors_fallback outcome' db)
   \<and> (\<forall>f. getTodayVisitors_indexed ord todayStart outcome db = Inl f
          \<and> code f = Some ''failed-precondition''
        \<longrightarrow> getTodayVisitors ord todayStart outcome outcome' db
            = getTodayVisitors_fallback todayStart outcome' db)
   \<and> (\<forall>f. getActiveVisitors_fallback (Some f) db = Inl f
          \<and> getTodayVisitors_fallback todayStart (Some f) db = Inl f
          \<and> getActiveVisitors ord (Some (FirestoreError ''failed-precondition'')) (Some f) db = Inl f
          \<and> getTodayVisitors ord todayStart (Some (FirestoreError ''failed-precondition''))
                (Some f) db = Inl f)
   \<and> (\<forall>f. mapDocs (whereEq ''status'' (VStr ''checked-in'') (visitors db)) = Inl f
        \<longrightarrow> getActiveVisitors_fallback None db = Inl f
          \<and> getActiveVisitors ord (Some (FirestoreError ''failed-precondition'')) None db = Inl f)
   \<and> (\<forall>f. mapDocs (visitors db) = Inl f
        \<longrightarrow> getTodayVisitors_fallback todayStart None db = Inl f
          \<and> getTodayVisitors ord todayStart (Some (FirestoreError ''failed-precondition''))
                None db = Inl f)"
  by (simp add: getActiveVisitors_def getActiveVisitors_indexed_def getTodayVisitors_def
      getTodayVisitors_indexed_def getAllVisitors_def getAllAuditLogs_def
      findVisitorByIdNumber_def findVisitorByIdNumber_try_def getDocs_def attempt_def
      getActiveVisitors_fallback_def getTodayVisitors_fallback_def)

theorem query_errors_swallowed_witness:
  "code (FirestoreError ''unavailable'') \<noteq> Some ''failed-precondition''
   \<and> getActiveVisitors exampleOrd (Some (FirestoreError ''unavailable'')) None malformedDb = Inr []
   \<and> getAllVisitors (Some (FirestoreError ''unavailable'')) malformedDb = Inr []
   \<and> findVisitorByIdNumber (Some (FirestoreError ''unavailable'')) malformedDb (VStr ''VID-1-AAAAAA'') = Inr None
   \<and> code TypeError \<noteq> Some ''failed-precondition''
   \<and> getActiveVisitors_indexed exampleOrd None malformedDb = Inl TypeError
   \<and> getActiveVisitors exampleOrd None None malformedDb = Inr []
   \<and> getTodayVisitors_indexed exampleOrd 0 None malformedDb = Inl TypeError
   \<and> getTodayVisitors exampleOrd 0 None None malformedDb = Inr []
   \<and> getAllVisitors None malformedDb = Inr []
   \<and> getAllAuditLogs None malformedDb = Inr []
   \<and> findVisitorByIdNumber_try None malformedDb (VStr ''VID-1-AAAAAA'') = Inl TypeError
   \<and> findVisitorByIdNumber None malformedDb (VStr ''VID-1-AAAAAA'') = Inr None
   \<and> getActiveVisitors exampleOrd (Some (FirestoreError ''failed-precondition''))
        (Some (FirestoreError ''unavailable'')) malformedDb = Inl (FirestoreError ''unavailable'')
   \<and> mapDocs (visitors malformedDb) = Inl TypeError
   \<and> getTodayVisitors exampleOrd 0 (Some (FirestoreError ''failed-precondition'')) None malformedDb
        = Inl TypeError"
proof -
  have m: "mapDocToVisitor (''v1'', [(''fullName'', VStr ''Ann''), (''status'', VStr ''checked-in''),
                          (''visitorIdNumber'', VStr ''VID-1-AAAAAA''),
                          (''checkInTime'', VStr ''2024-05-01'')]) = Inl TypeError"
    by (simp add: mapDocToVisitor_def mapHealthScreening_def get_def)
  have a: "getActiveVisitors_indexed exampleOrd None malformedDb = Inl TypeError"
    by (simp add: getActiveVisitors_indexed_def malformedDb_def getDocs_def attempt_def
        orderByDesc_def withField_def whereEq_def get_def m)
  have t: "getTodayVisitors_indexed exampleOrd 0 None malformedDb = Inl TypeError"
    by (simp add: getTodayVisitors_indexed_def malformedDb_def getDocs_def attempt_def
        orderByDesc_def withField_def get_def m)
  have v: "andThen (getDocs None (visitors malformedDb)) mapDocs = Inl TypeError"
    by (simp add: malformedDb_def getDocs_def attempt_def m)
  have l: "andThen (getDocs None (audit_logs malformedDb)) mapAuditLogs = Inl TypeError"
    by (simp add: malformedDb_def getDocs_def attempt_def mapAuditLog_def get_def)
  have f: "findVisitorByIdNumber_try None malformedDb (VStr ''VID-1-AAAAAA'') = Inl TypeError"
    by (simp add: findVisitorByIdNumber_try_def malformedDb_def getDocs_def attempt_def
        whereEq_def get_def m)
  have c: "code TypeError \<noteq> Some ''failed-precondition''"
    "code (FirestoreError ''unavailable'') \<noteq> Some ''failed-precondition''"
    by simp_all
  have d: "mapDocs (visitors malformedDb) = Inl TypeError"
    by (simp add: malformedDb_def m)
  show ?thesis
    using query_errors_swallowed [where e = TypeError and ord = exampleOrd and db = malformedDb
          and outcome = None and outcome' = None and todayStart = 0
          and idNumber = "VStr ''VID-1-AAAAAA''"]
      query_errors_swallowed [where e = "FirestoreError ''unavailable''" and ord = exampleOrd
          and db = malformedDb and outcome = None and outcome' = None and todayStart = 0
          and idNumber = "VStr ''VID-1-AAAAAA''"]
      a t v l f c d
    by simp
qed

text \<open>
  Claim C7 as stated has every error other than the missing index swallowed. When the
  index is missing and the fallback read is rejected as \<^verbatim>\<open>unavailable\<close>,
  \<^verbatim>\<open>getActiveVisitors\<close> rejects with that error; when a stored document cannot be
  mapped, the fallback of \<^verbatim>\<open>getTodayVisitors\<close> throws the \<^verbatim>\<open>TypeError\<close>.
\<close>

theorem fallback_errors_propagate:
  "getActiveVisitors exampleOrd (Some (FirestoreError ''failed-precondition''))
       (Some (FirestoreError ''unavailable'')) malformedDb = Inl (FirestoreError ''unavailable'')
   \<and> getTodayVisitors exampleOrd 0 (Some (FirestoreError ''failed-precondition'')) None malformedDb
       = Inl TypeError"
  by (simp add: getActiveVisitors_def getActiveVisitors_indexed_def getActiveVisitors_fallback_def
      getTodayVisitors_def getTodayVisitors_indexed_def getTodayVisitors_fallback_def
      getDocs_def attempt_def malformedDb_def mapDocToVisitor_def mapHealthScreening_def get_def)

subsection \<open>Objects and the check-in payload\<close>

lemma get_Nil: "get [] k = None"
  by (simp add: get_def)

lemma get_Cons: "get ((k, v) # ob) k' = (if k' = k then Some v else get ob k')"
  by (simp add: get_def)

lemma get_put: "get (put k v ob) k' = (if k' = k then Some v else get ob k')"
  by (simp add: get_def put_def update_conv')

lemma get_toFirestoreObj: "get (toFirestoreObj ob) k = map_option toFirestore (get ob k)"
  by (induction ob) (auto simp: get_def toFirestoreObj_def)

lemma visitors_logAudit [simp]: "visitors (logAudit env db a u i d) = visitors db"
  by (simp add: logAudit_def addDoc_def split: option.splits)

lemma withScreening_get:
  "withScreening now vd payload = Inr p \<Longrightarrow> k \<noteq> ''healthScreening'' \<Longrightarrow> get p k = get payload k"
  by (auto simp: withScreening_def andThen_Inr_iff get_put split: option.splits if_splits)

lemma checkInVisitor_unfold:
  "checkInVisitor env db vd r =
     (case withScreening (now_screening env) vd (basePayload env vd r) of
        Inl e \<Rightarrow> (db, Inl e)
      | Inr payload \<Rightarrow>
          (case add_outcome env of
             Some e \<Rightarrow> (db, Inl e)
           | None \<Rightarrow>
               if new_doc env \<in> fst ` set (visitors db)
               then (db, Inl (FirestoreError ''already-exists''))
               else
                 (logAudit (checkin_audit env)
                    (db\<lparr>visitors := insertDoc (visitors db) (new_doc env) payload\<rparr>)
                    ''visitor_check_in'' ''system'' (new_doc env)
                    (present [(''visitorName'', get vd ''fullName''),
                              (''resident'', get vd ''residentName''),
                              (''room'', get vd ''roomNumber'')]),
                  mapDocToVisitor (new_doc env, payload))))"
  by (simp add: checkInVisitor_def Let_def basePayload_def idNumberOf_def addDoc_def
      split: sum.splits option.splits)

lemma basePayload_get:
  "get (basePayload env vd r) ''status'' = Some (VStr ''checked-in'')"
  "get (basePayload env vd r) ''checkInTime'' = Some (VTime (now_checkin env))"
  "get (basePayload env vd r) ''visitorIdNumber'' = Some (idNumberOf env vd r)"
  by (simp_all add: basePayload_def assign_def get_put)

lemma checkInVisitor_success:
  assumes "checkInVisitor env db vd r = (db', Inr v)"
  shows "\<exists>payload. visitors db' = insertDoc (visitors db) (new_doc env) payload
           \<and> new_doc env \<notin> fst ` set (visitors db)
           \<and> mapDocToVisitor (new_doc env, payload) = Inr v
           \<and> get payload ''status'' = Some (VStr ''checked-in'')
           \<and> get payload ''checkInTime'' = Some (VTime (now_checkin env))
           \<and> get payload ''visitorIdNumber'' = Some (idNumberOf env vd r)"
proof -
  from assms obtain payload where
    p: "withScreening (now_screening env) vd (basePayload env vd r) = Inr payload"
    and o: "add_outcome env = None"
    and d: "visitors db' = insertDoc (visitors db) (new_doc env) payload"
      "new_doc env \<notin> fst ` set (visitors db)"
    and m: "mapDocToVisitor (new_doc env, payload) = Inr v"
    by (auto simp: checkInVisitor_unfold split: sum.splits option.splits if_splits)
  have "get payload ''status'' = Some (VStr ''checked-in'')"
    "get payload ''checkInTime'' = Some (VTime (now_checkin env))"
    "get payload ''visitorIdNumber'' = Some (idNumberOf env vd r)"
    using withScreening_get [OF p] by (simp_all add: basePayload_get)
  with d m show ?thesis by blast
qed

lemma set_insertDoc: "set (insertDoc coll i data) = insert (i, toFirestoreObj data) (set coll)"
  by (simp add: insertDoc_def set_insort_key)

lemma checkInVisitor_names:
  assumes "checkInVisitor env db vd r = (db', Inr v)"
  shows "fst ` set (visitors db') = insert (new_doc env) (fst ` set (visitors db))"
proof -
  from checkInVisitor_success [OF assms] obtain payload
    where "visitors db' = insertDoc (visitors db) (new_doc env) payload"
    by blast
  then show ?thesis
    by (simp add: set_insertDoc)
qed

lemma truthy_generated: "truthy (VStr (generateVisitorIdNumber now r))"
  by (simp add: generateVisitorIdNumber_def)

lemma length_toUpperCase [simp]: "length (toUpperCase s) = length s"
  by (simp add: toUpperCase_def)

lemma checkInVisitor_returns:
  assumes "withScreening (now_screening env) vd (basePayload env vd r) = Inr payload"
    and "add_outcome env = None" and "convertible payload"
    and "new_doc env \<notin> fst ` set (visitors db)"
  shows "\<exists>db' v. checkInVisitor env db vd r = (db', Inr v) \<and> visitor_id v = new_doc env"
proof -
  from assms(3) obtain v where v: "mapDocToVisitor (new_doc env, payload) = Inr v"
    using mapDocToVisitor_ok by blast
  then have "visitor_id v = new_doc env"
    by (rule mapDocToVisitor_fields(1))
  with v assms(1,2,4) show ?thesis
    by (simp add: checkInVisitor_unfold)
qed

lemma sample_checkin:
  assumes "n \<notin> fst ` set (visitors db)"
  shows "\<exists>db' v. checkInVisitor (sampleEnv n) db annData False = (db', Inr v) \<and> visitor_id v = n"
    and "\<exists>db' v. checkInVisitor (sampleEnv n) db bobData False = (db', Inr v) \<and> visitor_id v = n"
proof -
  have a: "withScreening (now_screening (sampleEnv n)) annData (basePayload (sampleEnv n) annData False)
      = Inr (basePayload (sampleEnv n) annData False)"
    by (simp add: withScreening_def annData_def get_def)
  have b: "withScreening (now_screening (sampleEnv n)) bobData (basePayload (sampleEnv n) bobData False)
      = Inr (basePayload (sampleEnv n) bobData False)"
    by (simp add: withScreening_def bobData_def get_def)
  have c: "convertible (basePayload (sampleEnv n) annData False)"
    "convertible (basePayload (sampleEnv n) bobData False)"
    by (simp_all add: convertible_def screeningConvertible_def basePayload_def assign_def get_put
        annData_def bobData_def get_Cons get_Nil)
  have o: "add_outcome (sampleEnv n) = None" "new_doc (sampleEnv n) = n"
    by (simp_all add: sampleEnv_def)
  show "\<exists>db' v. checkInVisitor (sampleEnv n) db annData False = (db', Inr v) \<and> visitor_id v = n"
    using checkInVisitor_returns [OF a o(1) c(1), of db] o(2) assms by simp
  show "\<exists>db' v. checkInVisitor (sampleEnv n) db bobData False = (db', Inr v) \<and> visitor_id v = n"
    using checkInVisitor_returns [OF b o(1) c(2), of db] o(2) assms by simp
qed

subsection \<open>Today's visitors\<close>

text \<open>
  Claim C4 says that the indexed path and the fallback path of \<^verbatim>\<open>getTodayVisitors\<close>
  both return the visitors who checked in today. On a database whose only visitor checked
  in on an earlier day, the indexed path returns that visitor and the fallback path
  returns nobody: the indexed query has no filter on \<^verbatim>\<open>checkInTime\<close>.
\<close>

theorem getTodayVisitors_paths_differ:
  "(case getTodayVisitors exampleOrd 86400000 None None yesterdayDb of
      Inr vs \<Rightarrow> map (\<lambda>v. (visitor_id v, checkInTime v)) vs | Inl e \<Rightarrow> [])
     = [(''v1'', VDate 1000)]
   \<and> getTodayVisitors exampleOrd 86400000 (Some (FirestoreError ''failed-precondition'')) None yesterdayDb
     = Inr []"
  by (simp add: getTodayVisitors_def getTodayVisitors_indexed_def getTodayVisitors_fallback_def
      yesterdayDb_def getDocs_def attempt_def orderByDesc_def withField_def get_def
      mapDocToVisitor_def mapHealthScreening_def newestFirst_def)

subsection \<open>Visitor id numbers\<close>

lemma upperChar_not_lower: "upperChar c \<notin> set lowerCase"
proof (cases "map_of (zip lowerCase upperCase) c")
  case None
  have "length lowerCase = length upperCase"
    by (simp add: lowerCase_def upperCase_def)
  then have "fst ` set (zip lowerCase upperCase) = set lowerCase"
    by (metis map_fst_zip set_map)
  with None have "c \<notin> set lowerCase"
    by (simp add: map_of_eq_None_iff)
  with None show ?thesis
    by (simp add: upperChar_def)
next
  case (Some u)
  then have "u \<in> set upperCase"
    by (meson map_of_SomeD set_zip_rightD)
  moreover have "set upperCase \<inter> set lowerCase = {}"
    by (simp add: lowerCase_def upperCase_def)
  ultimately have "u \<notin> set lowerCase"
    by blast
  with Some show ?thesis
    by (simp add: upperChar_def)
qed

lemma toUpperCase_no_lower: "set (toUpperCase s) \<inter> set lowerCase = {}"
  by (auto simp: toUpperCase_def upperChar_not_lower)

text \<open>
  Claim C8, as the code has it. The id number of a new visitor is \<^verbatim>\<open>VID-\<close>, the clock in milliseconds,
  a dash, and the upper-cased characters 2 to 7 of the random draw's base-36 rendering
  (at most six, and six when the rendering has at least eight characters; none of them
  a lower-case letter). Nothing else enters it: two check-ins that read the same clock and the same draw get the same id
  number, whatever the visitors and the stored documents are.
\<close>

theorem visitor_ids_not_unique:
  assumes "now_vid env = now_vid env'" and "random36 env = random36 env'"
    and "checkInVisitor env db vd False = (db', Inr v)"
    and "checkInVisitor env' db' vd' False = (db'', Inr v')"
  shows "visitorIdNumber v = visitorIdNumber v'
    \<and> visitorIdNumber v =
        VStr (''VID-'' @ showInt (now_vid env) @ ''-'' @ toUpperCase (take 6 (drop 2 (random36 env))))
    \<and> length (toUpperCase (take 6 (drop 2 (random36 env)))) \<le> 6
    \<and> (8 \<le> length (random36 env) \<longrightarrow> length (toUpperCase (take 6 (drop 2 (random36 env)))) = 6)
    \<and> set (toUpperCase (take 6 (drop 2 (random36 env)))) \<inter> set lowerCase = {}"
proof -
  have g: "visitorIdNumber w = VStr (generateVisitorIdNumber (now_vid e) (random36 e))"
    if "checkInVisitor e d x False = (d', Inr w)" for e d x d' w
  proof -
    from checkInVisitor_success [OF that] obtain payload where
      "mapDocToVisitor (new_doc e, payload) = Inr w"
      "get payload ''visitorIdNumber'' = Some (idNumberOf e x False)"
      by blast
    moreover have "idNumberOf e x False = VStr (generateVisitorIdNumber (now_vid e) (random36 e))"
      by (simp add: idNumberOf_def split: option.splits)
    ultimately show ?thesis
      by (simp add: mapDocToVisitor_fields(8) truthy_generated)
  qed
  have l: "length (toUpperCase s) = length s" for s
    by (simp add: toUpperCase_def)
  from g [OF assms(3)] g [OF assms(4)] assms(1,2) show ?thesis
    by (simp add: generateVisitorIdNumber_def l toUpperCase_no_lower)
qed

theorem visitor_ids_not_unique_witness:
  "\<exists>db' v db'' v'.
      checkInVisitor (sampleEnv ''docA'') emptyDb annData False = (db', Inr v)
    \<and> checkInVisitor (sampleEnv ''docB'') db' bobData False = (db'', Inr v')
    \<and> visitor_id v = ''docA'' \<and> visitor_id v' = ''docB''
    \<and> visitorIdNumber v = VStr ''VID-1714550000123-K3J9X2''
    \<and> visitorIdNumber v' = VStr ''VID-1714550000123-K3J9X2''"
proof -
  have "''docA'' \<notin> fst ` set (visitors emptyDb)"
    by (simp add: emptyDb_def)
  from sample_checkin(1) [OF this]
  obtain db' v where a: "checkInVisitor (sampleEnv ''docA'') emptyDb annData False = (db', Inr v)"
    "visitor_id v = ''docA''"
    by blast
  from checkInVisitor_names [OF a(1)] have "''docB'' \<notin> fst ` set (visitors db')"
    by (simp add: emptyDb_def sampleEnv_def)
  from sample_checkin(2) [OF this]
  obtain db'' v' where b: "checkInVisitor (sampleEnv ''docB'') db' bobData False = (db'', Inr v')"
    "visitor_id v' = ''docB''"
    by blast
  have e: "now_vid (sampleEnv ''docA'') = now_vid (sampleEnv ''docB'')"
    "random36 (sampleEnv ''docA'') = random36 (sampleEnv ''docB'')"
    by (simp_all add: sampleEnv_def)
  have s: "''VID-'' @ showInt (now_vid (sampleEnv ''docA'')) @ ''-''
      @ toUpperCase (take 6 (drop 2 (random36 (sampleEnv ''docA'')))) = ''VID-1714550000123-K3J9X2''"
    by (simp add: sampleEnv_def showInt_def showNat.simps digit_def toUpperCase_def upperChar_def lowerCase_def upperCase_def)
  from visitor_ids_not_unique [OF e a(1) b(1)] s
  have "visitorIdNumber v = VStr ''VID-1714550000123-K3J9X2''"
    "visitorIdNumber v' = VStr ''VID-1714550000123-K3J9X2''"
    by auto
  with a b show ?thesis by blast
qed

text \<open>
  Claim C8 as stated gives the suffix six characters. A draw of one half is rendered
  \<^verbatim>\<open>0.i\<close> in base 36, and the suffix is the single character \<^verbatim>\<open>I\<close>.
\<close>

theorem visitor_id_short_suffix:
  "generateVisitorIdNumber 1714550000123 ''0.i'' = ''VID-1714550000123-I''"
  by (simp add: generateVisitorIdNumber_def showInt_def showNat.simps digit_def toUpperCase_def
      upperChar_def lowerCase_def upperCase_def)

subsection \<open>Lookup by QR code\<close>





subsection \<open>Queries and the mapping of their results\<close>

lemma map_snd_withField:
  "map snd (withField f coll) = filter (\<lambda>d. get (snd d) f \<noteq> None) coll"
  by (induction coll) (auto simp: withField_def split: option.splits)

lemma withField_fst:
  "p \<in> set (withField f coll) \<Longrightarrow> get (snd (snd p)) f = Some (fst p)"
  by (induction coll) (auto simp: withField_def split: option.splits)

lemma mset_orderByDesc:
  "mset (orderByDesc ord f coll) = mset (filter (\<lambda>d. get (snd d) f \<noteq> None) coll)"
proof -
  have "mset (orderByDesc ord f coll) = mset (map snd (withField f coll))"
    by (simp add: orderByDesc_def)
  then show ?thesis
    by (simp add: map_snd_withField)
qed

lemma set_orderByDesc:
  "set (orderByDesc ord f coll) = {d \<in> set coll. get (snd d) f \<noteq> None}"
  using mset_orderByDesc [of ord f coll, THEN arg_cong, of set_mset] by simp

lemma mapDocs_Inr_iff:
  "mapDocs docs = Inr vs \<longleftrightarrow> list_all2 (\<lambda>d v. mapDocToVisitor d = Inr v) docs vs"
proof (induction docs arbitrary: vs)
  case Nil
  then show ?case by auto
next
  case (Cons d ds)
  then show ?case
    by (cases vs) (auto simp: andThen_Inr_iff)
qed

lemma mapDocs_map:
  "mapDocs docs = Inr vs \<Longrightarrow> vs = map (\<lambda>d. projr (mapDocToVisitor d)) docs"
  by (induction docs arbitrary: vs) (auto simp: andThen_Inr_iff)

lemma mapDocs_all:
  "(\<exists>vs. mapDocs docs = Inr vs) \<longleftrightarrow> (\<forall>d\<in>set docs. \<exists>v. mapDocToVisitor d = Inr v)"
  by (induction docs) (auto simp: andThen_Inr_iff)

lemma mapDocToVisitor_error: "mapDocToVisitor d = Inl e \<Longrightarrow> e = TypeError"
  using mapDocToVisitor_fail [of "snd d" "fst d"] mapDocToVisitor_ok [of "snd d" "fst d"]
  by (cases "convertible (snd d)") auto

lemma mapDocs_error: "mapDocs docs = Inl e \<Longrightarrow> e = TypeError"
proof (induction docs)
  case Nil
  then show ?case by simp
next
  case (Cons d ds)
  from Cons show ?case
    by (auto simp: andThen_Inl_iff dest: mapDocToVisitor_error)
qed

lemma mapDocs_ids: "mapDocs docs = Inr vs \<Longrightarrow> map visitor_id vs = map fst docs"
proof (induction docs arbitrary: vs)
  case Nil
  then show ?case by simp
next
  case (Cons d ds)
  obtain i data where d: "d = (i, data)" by (cases d)
  from Cons show ?case
    by (auto simp: andThen_Inr_iff d dest: mapDocToVisitor_fields(1))
qed

lemma mapDocs_perm:
  assumes "mset docs = mset docs'" and "mapDocs docs = Inr vs"
  shows "\<exists>ws. mapDocs docs' = Inr ws \<and> mset ws = mset vs"
proof -
  from assms(2) have "\<forall>d\<in>set docs. \<exists>v. mapDocToVisitor d = Inr v"
    using mapDocs_all by blast
  with assms(1) have "\<forall>d\<in>set docs'. \<exists>v. mapDocToVisitor d = Inr v"
    by (metis set_mset_mset)
  then obtain ws where ws: "mapDocs docs' = Inr ws"
    using mapDocs_all by blast
  have "mset ws = image_mset (\<lambda>d. projr (mapDocToVisitor d)) (mset docs')"
    using mapDocs_map [OF ws] by simp
  also have "\<dots> = mset vs"
    using mapDocs_map [OF assms(2)] assms(1) by simp
  finally show ?thesis using ws by blast
qed

lemma mapDocs_filter:
  "mapDocs docs = Inr vs \<Longrightarrow> \<exists>ws. mapDocs (filter P docs) = Inr ws"
  by (meson filter_is_subset mapDocs_all subsetD)

lemma withinBounds_inRange:
  "mapDocToVisitor d = Inr v \<Longrightarrow> withinBounds lo hi v = inRange lo hi d"
  using mapDocToVisitor_fields(12) [of "fst d" "snd d" v]
  by (auto simp: withinBounds_def inRange_def split: option.splits fval.splits)

lemma range_test:
  "mapDocToVisitor d = Inr v \<Longrightarrow>
     (truthy (checkInTime v) \<and> dateGe (checkInTime v) lo \<and> dateLe (checkInTime v) hi) = inRange lo hi d"
  using mapDocToVisitor_fields(12) [of "fst d" "snd d" v]
  by (auto simp: inRange_def split: option.splits fval.splits)

lemma range_filters:
  "filter (\<lambda>d. get (snd d) ''checkInTime'' \<noteq> None)
     (whereLe ''checkInTime'' hi (whereGe ''checkInTime'' lo coll)) = filter (inRange lo hi) coll"
  unfolding whereLe_def whereGe_def inRange_def filter_filter
  by (rule filter_cong) (auto split: option.splits fval.splits)

lemma mapDocs_filter_visitors:
  assumes "mapDocs docs = Inr vs"
    and "\<And>d v. d \<in> set docs \<Longrightarrow> mapDocToVisitor d = Inr v \<Longrightarrow> Q v = P d"
  shows "mapDocs (filter P docs) = Inr (filter Q vs)"
  using assms
proof (induction docs arbitrary: vs)
  case Nil
  then show ?case by simp
next
  case (Cons d ds)
  from Cons.prems(1) obtain v ws where v: "mapDocToVisitor d = Inr v"
    and ws: "mapDocs ds = Inr ws" and vs: "vs = v # ws"
    by (auto simp: andThen_Inr_iff)
  have "mapDocs (filter P ds) = Inr (filter Q ws)"
    using Cons.IH [OF ws] Cons.prems(2) by simp
  moreover have "Q v = P d"
    using Cons.prems(2) v by simp
  ultimately show ?case
    by (simp add: v vs)
qed

lemma mapDocs_source:
  "mapDocs docs = Inr vs \<Longrightarrow> v \<in> set vs \<Longrightarrow> \<exists>d\<in>set docs. mapDocToVisitor d = Inr v"
  by (induction docs arbitrary: vs) (auto simp: andThen_Inr_iff)

lemma mset_newestFirst [simp]: "mset (newestFirst vs) = mset vs"
  by (simp add: newestFirst_def)

lemma set_newestFirst [simp]: "set (newestFirst vs) = set vs"
  by (simp add: newestFirst_def)

lemma getDocs_Inr_iff: "getDocs outcome docs = Inr r \<longleftrightarrow> outcome = None \<and> r = docs"
  by (auto simp: getDocs_def attempt_def split: option.splits)

lemma byDateRange_indexed:
  assumes "getVisitorsByDateRange_indexed sod eod ord outcome db s e = Inr vs"
  shows "\<exists>ws. mapDocs (filter (inRange (sod s) (eod e)) (visitors db)) = Inr ws \<and> mset vs = mset ws"
proof -
  let ?docs = "orderByDesc ord ''checkInTime''
      (whereLe ''checkInTime'' (eod e) (whereGe ''checkInTime'' (sod s) (visitors db)))"
  from assms have m: "mapDocs ?docs = Inr vs"
    by (auto simp: getVisitorsByDateRange_indexed_def andThen_Inr_iff getDocs_Inr_iff)
  have "mset ?docs = mset (filter (inRange (sod s) (eod e)) (visitors db))"
    by (simp only: mset_orderByDesc range_filters)
  from mapDocs_perm [OF this m] show ?thesis by auto
qed

lemma byDateRange_fallback:
  assumes "getVisitorsByDateRange_fallback sod eod outcome db s e = Inr vs"
  shows "\<exists>ws. mapDocs (filter (inRange (sod s) (eod e)) (visitors db)) = Inr ws \<and> mset vs = mset ws"
proof -
  from assms obtain allv where a: "mapDocs (visitors db) = Inr allv"
    and vs: "vs = newestFirst (filter (\<lambda>v. truthy (checkInTime v)
                       \<and> dateGe (checkInTime v) (sod s)
                       \<and> dateLe (checkInTime v) (eod e)) allv)"
    by (auto simp: getVisitorsByDateRange_fallback_def andThen_Inr_iff getDocs_Inr_iff)
  have "mapDocs (filter (inRange (sod s) (eod e)) (visitors db))
      = Inr (filter (\<lambda>v. truthy (checkInTime v)
                       \<and> dateGe (checkInTime v) (sod s)
                       \<and> dateLe (checkInTime v) (eod e)) allv)"
    by (rule mapDocs_filter_visitors [OF a]) (rule range_test)
  with vs show ?thesis by simp
qed

lemma mapDocs_convertible:
  "\<forall>d\<in>set docs. convertible (snd d) \<Longrightarrow> \<exists>vs. mapDocs docs = Inr vs"
  unfolding mapDocs_all
  by (metis mapDocToVisitor_ok prod.collapse)

subsection \<open>Visitors by date range\<close>

text \<open>
  Claim C3. Whenever \<^verbatim>\<open>getVisitorsByDateRange\<close> returns, on its indexed path or on its
  fallback path, the result consists of exactly the stored visitors whose
  \<^verbatim>\<open>checkInTime\<close> is on or after the start of the day of \<^verbatim>\<open>startDate\<close> and on or
  before the end of the day of \<^verbatim>\<open>endDate\<close>, each once, and of no other record. It
  returns whenever one of its two reads is served and the stored documents can be mapped.
\<close>

theorem getVisitorsByDateRange_exact:
  "(getVisitorsByDateRange startOfDay endOfDay ord outcome outcome' db startDate endDate = Inr vs
      \<longrightarrow> (\<exists>ws. mapDocs (filter (inRange (startOfDay startDate) (endOfDay endDate)) (visitors db)) = Inr ws
                \<and> mset vs = mset ws)
          \<and> mset (map visitor_id vs)
              = mset (map fst (filter (inRange (startOfDay startDate) (endOfDay endDate)) (visitors db)))
          \<and> (\<forall>v\<in>set vs. withinBounds (startOfDay startDate) (endOfDay endDate) v))
   \<and> ((outcome = None \<or> outcome' = None) \<and> (\<forall>d\<in>set (visitors db). convertible (snd d))
      \<longrightarrow> (\<exists>vs. getVisitorsByDateRange startOfDay endOfDay ord outcome outcome' db startDate endDate
                  = Inr vs))"
proof (intro conjI impI)
  assume r: "getVisitorsByDateRange startOfDay endOfDay ord outcome outcome' db startDate endDate = Inr vs"
  let ?docs = "filter (inRange (startOfDay startDate) (endOfDay endDate)) (visitors db)"
  from r have "getVisitorsByDateRange_indexed startOfDay endOfDay ord outcome db startDate endDate = Inr vs
    \<or> getVisitorsByDateRange_fallback startOfDay endOfDay outcome' db startDate endDate = Inr vs"
    by (auto simp: getVisitorsByDateRange_def split: sum.splits)
  then obtain ws where ws: "mapDocs ?docs = Inr ws" "mset vs = mset ws"
    using byDateRange_indexed byDateRange_fallback by blast
  then show "\<exists>ws. mapDocs ?docs = Inr ws \<and> mset vs = mset ws"
    by blast
  have "mset (map visitor_id vs) = mset (map visitor_id ws)"
    using ws(2) by (metis mset_map)
  then show "mset (map visitor_id vs) = mset (map fst ?docs)"
    by (simp add: mapDocs_ids [OF ws(1)])
  show "\<forall>v\<in>set vs. withinBounds (startOfDay startDate) (endOfDay endDate) v"
  proof
    fix v
    assume "v \<in> set vs"
    then have "v \<in> set ws"
      using ws(2) by (metis set_mset_mset)
    then obtain d where "d \<in> set ?docs" "mapDocToVisitor d = Inr v"
      using mapDocs_source [OF ws(1)] by blast
    then show "withinBounds (startOfDay startDate) (endOfDay endDate) v"
      by (simp add: withinBounds_inRange)
  qed
next
  assume a: "(outcome = None \<or> outcome' = None) \<and> (\<forall>d\<in>set (visitors db). convertible (snd d))"
  then obtain allv where allv: "mapDocs (visitors db) = Inr allv"
    using mapDocs_convertible by blast
  have f: "outcome' = None \<Longrightarrow>
      \<exists>vs. getVisitorsByDateRange_fallback startOfDay endOfDay outcome' db startDate endDate = Inr vs"
    by (simp add: getVisitorsByDateRange_fallback_def getDocs_def attempt_def allv)
  have "\<forall>d\<in>set (orderByDesc ord ''checkInTime''
      (whereLe ''checkInTime'' (endOfDay endDate)
        (whereGe ''checkInTime'' (startOfDay startDate) (visitors db)))). convertible (snd d)"
    using a by (auto simp: set_orderByDesc whereLe_def whereGe_def)
  then have i: "outcome = None \<Longrightarrow>
      \<exists>vs. getVisitorsByDateRange_indexed startOfDay endOfDay ord outcome db startDate endDate = Inr vs"
    using mapDocs_convertible
    by (fastforce simp: getVisitorsByDateRange_indexed_def getDocs_def attempt_def)
  show "\<exists>vs. getVisitorsByDateRange startOfDay endOfDay ord outcome outcome' db startDate endDate = Inr vs"
  proof (cases "getVisitorsByDateRange_indexed startOfDay endOfDay ord outcome db startDate endDate")
    case (Inr x)
    then show ?thesis by (simp add: getVisitorsByDateRange_def)
  next
    case (Inl x)
    with i have "outcome \<noteq> None" by (cases outcome) auto
    with a f Inl show ?thesis by (simp add: getVisitorsByDateRange_def)
  qed
qed

theorem getVisitorsByDateRange_exact_witness:
  "(\<exists>vs. getVisitorsByDateRange utcStartOfDay utcEndOfDay exampleOrd None None rangeDb
            1714550000000 1714560000000 = Inr vs
        \<and> mset (map visitor_id vs) = {#''v2'', ''v3''#})
   \<and> (\<exists>vs. getVisitorsByDateRange utcStartOfDay utcEndOfDay exampleOrd
            (Some (FirestoreError ''failed-precondition'')) None rangeDb
            1714550000000 1714560000000 = Inr vs
        \<and> mset (map visitor_id vs) = {#''v2'', ''v3''#})"
proof -
  have c: "\<forall>d\<in>set (visitors rangeDb). convertible (snd d)"
    by (simp add: rangeDb_def convertible_def screeningConvertible_def get_Cons get_Nil)
  have f: "map fst (filter (inRange (utcStartOfDay 1714550000000) (utcEndOfDay 1714560000000))
      (visitors rangeDb)) = [''v2'', ''v3'']"
    by (simp add: rangeDb_def inRange_def utcStartOfDay_def utcEndOfDay_def get_Cons get_Nil)
  note t = getVisitorsByDateRange_exact [where startOfDay = utcStartOfDay and endOfDay = utcEndOfDay
      and ord = exampleOrd and db = rangeDb and startDate = 1714550000000
      and endDate = 1714560000000 and outcome' = None]
  from t [where outcome = None] c
  obtain vs where vs: "getVisitorsByDateRange utcStartOfDay utcEndOfDay exampleOrd None None rangeDb
            1714550000000 1714560000000 = Inr vs"
    by blast
  from t [where outcome = "Some (FirestoreError ''failed-precondition'')"] c
  obtain ws where ws: "getVisitorsByDateRange utcStartOfDay utcEndOfDay exampleOrd
            (Some (FirestoreError ''failed-precondition'')) None rangeDb
            1714550000000 1714560000000 = Inr ws"
    by blast
  from t [where outcome = None and vs = vs] vs f
  have "mset (map visitor_id vs) = {#''v2'', ''v3''#}"
    by simp
  moreover from t [where outcome = "Some (FirestoreError ''failed-precondition'')" and vs = ws] ws f
  have "mset (map visitor_id ws) = {#''v2'', ''v3''#}"
    by simp
  ultimately show ?thesis
    using vs ws by blast
qed

subsection \<open>The active queries\<close>

lemma whereEq_status:
  "whereEq ''status'' (VStr ''checked-in'') coll = filter storedActive coll"
  unfolding whereEq_def by (rule filter_cong) (simp_all add: storedActive_def)

lemma timeLike_toFirestore: "timeLike x \<Longrightarrow> timeLike (map_option toFirestore x)"
  by (induction x rule: timeLike.induct) simp_all

lemma truthy_toFirestore [simp]: "truthy (toFirestore v) = truthy v"
  by (cases v) simp_all

lemma getProp_toFirestore:
  "getProp (toFirestore v) k = map_sum id (map_option toFirestore) (getProp v k)"
proof (cases v)
  case (VMap kvs)
  then show ?thesis
    using get_toFirestoreObj [of kvs k] by (simp add: toFirestoreObj_def)
qed simp_all

lemma convertible_toFirestoreObj:
  assumes "convertible ob"
  shows "convertible (toFirestoreObj ob)"
proof -
  have "screeningConvertible (toFirestoreObj ob)"
    using assms
    by (auto simp: convertible_def screeningConvertible_def get_toFirestoreObj getProp_toFirestore
        timeLike_toFirestore split: option.splits sum.splits if_splits)
  with assms show ?thesis
    by (simp add: convertible_def get_toFirestoreObj timeLike_toFirestore)
qed

lemma mapDocToVisitor_convertible: "mapDocToVisitor (i, data) = Inr v \<Longrightarrow> convertible data"
  using mapDocToVisitor_fail [of data i] by auto

lemma active_indexed_docs:
  assumes "getActiveVisitors_indexed ord outcome db = Inr vs"
  shows "mapDocs (orderByDesc ord ''checkInTime'' (filter storedActive (visitors db))) = Inr vs"
  using assms
  by (simp add: getActiveVisitors_indexed_def andThen_Inr_iff getDocs_Inr_iff whereEq_status)

lemma active_fallback_docs:
  assumes "getActiveVisitors_fallback outcome db = Inr vs"
  shows "\<exists>ws. mapDocs (filter storedActive (visitors db)) = Inr ws \<and> vs = newestFirst ws"
  using assms
  by (auto simp: getActiveVisitors_fallback_def andThen_Inr_iff getDocs_Inr_iff whereEq_status)

lemma active_indexed_ids:
  assumes "getActiveVisitors_indexed ord outcome db = Inr vs"
  shows "mset (map visitor_id vs)
    = mset (map fst (filter (\<lambda>d. storedActive d \<and> hasCheckInTime d) (visitors db)))"
proof -
  have "mset (map visitor_id vs)
      = image_mset fst (mset (orderByDesc ord ''checkInTime'' (filter storedActive (visitors db))))"
    using mapDocs_ids [OF active_indexed_docs [OF assms]] by (metis mset_map)
  also have "\<dots> = image_mset fst (mset (filter (\<lambda>d. get (snd d) ''checkInTime'' \<noteq> None)
      (filter storedActive (visitors db))))"
    by (simp only: mset_orderByDesc)
  finally show ?thesis
    by (simp add: hasCheckInTime_def conj_commute)
qed

lemma active_fallback_ids:
  assumes "getActiveVisitors_fallback outcome db = Inr vs"
  shows "mset (map visitor_id vs) = mset (map fst (filter storedActive (visitors db)))"
proof -
  from active_fallback_docs [OF assms] obtain ws
    where ws: "mapDocs (filter storedActive (visitors db)) = Inr ws" "vs = newestFirst ws"
    by blast
  have "mset (map visitor_id vs) = image_mset visitor_id (mset ws)"
    by (simp add: ws(2))
  also have "\<dots> = mset (map visitor_id ws)"
    by simp
  finally show ?thesis
    by (simp add: mapDocs_ids [OF ws(1)])
qed

lemma mapped_active_status:
  assumes "mapDocs (filter storedActive docs) = Inr ws" and "w \<in> set ws"
  shows "status w = VStr ''checked-in''"
proof -
  from mapDocs_source [OF assms] obtain d where d: "storedActive d" "mapDocToVisitor d = Inr w"
    by auto
  then show ?thesis
    using mapDocToVisitor_fields(9) [of "fst d" "snd d" w] by (simp add: storedActive_def)
qed

lemma active_status:
  assumes "getActiveVisitors_indexed ord outcome db = Inr vs \<or> getActiveVisitors_fallback outcome' db = Inr vs"
    and "w \<in> set vs"
  shows "status w = VStr ''checked-in''"
  using assms(1)
proof
  assume "getActiveVisitors_indexed ord outcome db = Inr vs"
  from mapDocs_source [OF active_indexed_docs [OF this] assms(2)]
  obtain d where d: "storedActive d" "mapDocToVisitor d = Inr w"
    by (auto simp: set_orderByDesc)
  then show ?thesis
    using mapDocToVisitor_fields(9) [of "fst d" "snd d" w] by (simp add: storedActive_def)
next
  assume "getActiveVisitors_fallback outcome' db = Inr vs"
  from active_fallback_docs [OF this] assms(2) show ?thesis
    using mapped_active_status by auto
qed

lemma active_member:
  assumes "getActiveVisitors_indexed ord outcome db = Inr vs \<or> getActiveVisitors_fallback outcome' db = Inr vs"
    and "(i, d) \<in> set (visitors db)"
    and "get d ''status'' = Some (VStr ''checked-in'')"
    and "get d ''checkInTime'' = Some (VTime t)"
  shows "\<exists>w\<in>set vs. visitor_id w = i \<and> status w = VStr ''checked-in'' \<and> checkInTime w = VDate t"
proof -
  have s: "storedActive (i, d)"
    using assms(3) by (simp add: storedActive_def)
  have "\<exists>w\<in>set vs. mapDocToVisitor (i, d) = Inr w"
    using assms(1)
  proof
    assume "getActiveVisitors_indexed ord outcome db = Inr vs"
    from mapDocs_member [OF active_indexed_docs [OF this]] s assms(2,4) show ?thesis
      by (simp add: set_orderByDesc)
  next
    assume "getActiveVisitors_fallback outcome' db = Inr vs"
    from active_fallback_docs [OF this] obtain ws
      where ws: "mapDocs (filter storedActive (visitors db)) = Inr ws" "vs = newestFirst ws"
      by blast
    from mapDocs_member [OF ws(1)] s assms(2) ws(2) show ?thesis
      by simp
  qed
  then obtain w where w: "w \<in> set vs" "mapDocToVisitor (i, d) = Inr w"
    by blast
  from mapDocToVisitor_fields [OF w(2)] assms(3,4)
  have "visitor_id w = i" "status w = VStr ''checked-in''" "checkInTime w = VDate t"
    by simp_all
  with w(1) show ?thesis by blast
qed

lemma active_indexed_returns:
  assumes "\<forall>d\<in>set (visitors db). convertible (snd d)"
  shows "\<exists>vs. getActiveVisitors_indexed ord None db = Inr vs"
proof -
  have "\<forall>d\<in>set (orderByDesc ord ''checkInTime'' (filter storedActive (visitors db))). convertible (snd d)"
    using assms by (simp add: set_orderByDesc)
  from mapDocs_convertible [OF this] show ?thesis
    by (simp add: getActiveVisitors_indexed_def getDocs_def attempt_def whereEq_status)
qed

lemma active_fallback_returns:
  assumes "\<forall>d\<in>set (visitors db). convertible (snd d)"
  shows "\<exists>vs. getActiveVisitors_fallback None db = Inr vs"
proof -
  have "\<forall>d\<in>set (filter storedActive (visitors db)). convertible (snd d)"
    using assms by simp
  from mapDocs_convertible [OF this] show ?thesis
    by (auto simp: getActiveVisitors_fallback_def getDocs_def attempt_def whereEq_status)
qed

subsection \<open>Check-in\<close>

text \<open>
  Claim C1, as the code has it. After a check-in that returned a visitor, the stored
  record has status \<^verbatim>\<open>'checked-in'\<close> and \<^verbatim>\<open>checkInTime\<close> at the clock reading of the
  check-in, and the visitor is in every list that \<^verbatim>\<open>getActiveVisitors\<close> obtains from
  one of its two queries; with mappable documents and a served indexed query it returns
  such a list. The list of the indexed query consists of exactly the stored visitors
  whose status field is \<^verbatim>\<open>'checked-in'\<close> and who have a \<^verbatim>\<open>checkInTime\<close> field, the
  list of the fallback query of exactly those whose status field is \<^verbatim>\<open>'checked-in'\<close>.
\<close>

theorem checked_in_visitor_is_active:
  "(checkInVisitor env db visitorData isReturningVisitor = (db', Inr v) \<longrightarrow>
      visitor_id v = new_doc env \<and> status v = VStr ''checked-in''
      \<and> checkInTime v = VDate (now_checkin env)
      \<and> (\<exists>d. (new_doc env, d) \<in> set (visitors db')
              \<and> get d ''status'' = Some (VStr ''checked-in'')
              \<and> get d ''checkInTime'' = Some (VTime (now_checkin env)))
      \<and> (\<forall>vs. getActiveVisitors_indexed ord outcome db' = Inr vs
                \<or> getActiveVisitors_fallback outcome' db' = Inr vs
            \<longrightarrow> (\<exists>w\<in>set vs. visitor_id w = new_doc env \<and> status w = VStr ''checked-in''
                    \<and> checkInTime w = VDate (now_checkin env)))
      \<and> ((\<forall>d\<in>set (visitors db). convertible (snd d))
            \<longrightarrow> (\<exists>vs. getActiveVisitors ord None outcome' db' = Inr vs
                    \<and> (\<exists>w\<in>set vs. visitor_id w = new_doc env \<and> status w = VStr ''checked-in''
                          \<and> checkInTime w = VDate (now_checkin env)))))
   \<and> (getActiveVisitors_indexed ord outcome dbx = Inr xs \<longrightarrow>
        mset (map visitor_id xs)
          = mset (map fst (filter (\<lambda>d. storedActive d \<and> hasCheckInTime d) (visitors dbx)))
        \<and> (\<forall>w\<in>set xs. status w = VStr ''checked-in'')
        \<and> getActiveVisitors ord outcome outcome' dbx = Inr xs)
   \<and> (getActiveVisitors_fallback outcome' dbx = Inr ys \<longrightarrow>
        mset (map visitor_id ys) = mset (map fst (filter storedActive (visitors dbx)))
        \<and> (\<forall>w\<in>set ys. status w = VStr ''checked-in'')
        \<and> getActiveVisitors ord (Some (FirestoreError ''failed-precondition'')) outcome' dbx = Inr ys)"
proof (intro conjI impI)
  assume c: "checkInVisitor env db visitorData isReturningVisitor = (db', Inr v)"
  from checkInVisitor_success [OF c] obtain payload where
    p: "visitors db' = insertDoc (visitors db) (new_doc env) payload"
    "mapDocToVisitor (new_doc env, payload) = Inr v"
    "get payload ''status'' = Some (VStr ''checked-in'')"
    "get payload ''checkInTime'' = Some (VTime (now_checkin env))"
    by blast
  from mapDocToVisitor_fields [OF p(2)] p(3,4)
  show "visitor_id v = new_doc env" "status v = VStr ''checked-in''"
    "checkInTime v = VDate (now_checkin env)"
    by simp_all
  let ?d = "toFirestoreObj payload"
  have d: "(new_doc env, ?d) \<in> set (visitors db')"
    "get ?d ''status'' = Some (VStr ''checked-in'')"
    "get ?d ''checkInTime'' = Some (VTime (now_checkin env))"
    using p(3,4) by (simp_all add: p(1) set_insertDoc get_toFirestoreObj)
  then show "\<exists>d. (new_doc env, d) \<in> set (visitors db')
      \<and> get d ''status'' = Some (VStr ''checked-in'')
      \<and> get d ''checkInTime'' = Some (VTime (now_checkin env))"
    by blast
  show m: "\<forall>vs. getActiveVisitors_indexed ord outcome db' = Inr vs
                \<or> getActiveVisitors_fallback outcome' db' = Inr vs
            \<longrightarrow> (\<exists>w\<in>set vs. visitor_id w = new_doc env \<and> status w = VStr ''checked-in''
                    \<and> checkInTime w = VDate (now_checkin env))"
    using active_member [OF _ d] by blast
  assume a: "\<forall>d\<in>set (visitors db). convertible (snd d)"
  have "convertible ?d"
    using p(2) by (intro convertible_toFirestoreObj) (rule mapDocToVisitor_convertible)
  with a have "\<forall>d\<in>set (visitors db'). convertible (snd d)"
    by (auto simp: p(1) set_insertDoc)
  from active_indexed_returns [OF this] obtain vs
    where vs: "getActiveVisitors_indexed ord None db' = Inr vs"
    by blast
  then have "getActiveVisitors ord None outcome' db' = Inr vs"
    by (simp add: getActiveVisitors_def)
  moreover from active_member [OF _ d, of ord None vs] vs
  have "\<exists>w\<in>set vs. visitor_id w = new_doc env \<and> status w = VStr ''checked-in''
      \<and> checkInTime w = VDate (now_checkin env)"
    by blast
  ultimately show "\<exists>vs. getActiveVisitors ord None outcome' db' = Inr vs
      \<and> (\<exists>w\<in>set vs. visitor_id w = new_doc env \<and> status w = VStr ''checked-in''
            \<and> checkInTime w = VDate (now_checkin env))"
    by blast
next
  assume i: "getActiveVisitors_indexed ord outcome dbx = Inr xs"
  show "mset (map visitor_id xs)
      = mset (map fst (filter (\<lambda>d. storedActive d \<and> hasCheckInTime d) (visitors dbx)))"
    by (rule active_indexed_ids [OF i])
  show "\<forall>w\<in>set xs. status w = VStr ''checked-in''"
    using active_status [of ord outcome dbx xs] i by blast
  show "getActiveVisitors ord outcome outcome' dbx = Inr xs"
    by (simp add: getActiveVisitors_def i)
next
  assume f: "getActiveVisitors_fallback outcome' dbx = Inr ys"
  show "mset (map visitor_id ys) = mset (map fst (filter storedActive (visitors dbx)))"
    by (rule active_fallback_ids [OF f])
  show "\<forall>w\<in>set ys. status w = VStr ''checked-in''"
    using active_status [of ord outcome dbx ys outcome'] f by blast
  show "getActiveVisitors ord (Some (FirestoreError ''failed-precondition'')) outcome' dbx = Inr ys"
    by (simp add: getActiveVisitors_def getActiveVisitors_indexed_def getDocs_def attempt_def f)
qed

lemma mixedDb_active:
  "map_sum id (map visitor_id) (getActiveVisitors_indexed exampleOrd None mixedDb) = Inr [''a2'']"
  "map_sum id (map visitor_id) (getActiveVisitors_fallback None mixedDb) = Inr [''a2'', ''a1'']"
  by (simp_all add: getActiveVisitors_indexed_def getActiveVisitors_fallback_def mixedDb_def
      getDocs_def attempt_def whereEq_def orderByDesc_def withField_def get_Cons get_Nil
      mapDocToVisitor_def mapHealthScreening_def newestFirst_def)

theorem checked_in_visitor_is_active_witness:
  "(\<exists>db' v. checkInVisitor (sampleEnv ''docA'') emptyDb annData False = (db', Inr v)
        \<and> visitor_id v = ''docA'' \<and> status v = VStr ''checked-in''
        \<and> checkInTime v = VDate 1714550000124
        \<and> (\<forall>d\<in>set (visitors emptyDb). convertible (snd d))
        \<and> (\<exists>vs. getActiveVisitors exampleOrd None None db' = Inr vs
              \<and> getActiveVisitors_indexed exampleOrd None db' = Inr vs
              \<and> (\<exists>w\<in>set vs. visitor_id w = ''docA'' \<and> status w = VStr ''checked-in''
                    \<and> checkInTime w = VDate 1714550000124)))
   \<and> (\<exists>xs. getActiveVisitors_indexed exampleOrd None mixedDb = Inr xs
         \<and> mset (map visitor_id xs) = {#''a2''#})
   \<and> (\<exists>ys. getActiveVisitors_fallback None mixedDb = Inr ys
         \<and> mset (map visitor_id ys) = {#''a1'', ''a2''#})"
proof -
  have "''docA'' \<notin> fst ` set (visitors emptyDb)"
    by (simp add: emptyDb_def)
  from sample_checkin(1) [OF this]
  obtain db' v where c: "checkInVisitor (sampleEnv ''docA'') emptyDb annData False = (db', Inr v)"
    by blast
  have e: "new_doc (sampleEnv ''docA'') = ''docA''" "now_checkin (sampleEnv ''docA'') = 1714550000124"
    by (simp_all add: sampleEnv_def)
  have n: "\<forall>d\<in>set (visitors emptyDb). convertible (snd d)"
    by (simp add: emptyDb_def)
  note t = checked_in_visitor_is_active [where env = "sampleEnv ''docA''" and db = emptyDb
      and visitorData = annData and isReturningVisitor = False and db' = db' and v = v
      and ord = exampleOrd and outcome = None and outcome' = None and dbx = mixedDb]
  note t1 = t [where xs = "[]" and ys = "[]", THEN conjunct1, THEN mp, OF c]
  from t1 e have v: "visitor_id v = ''docA''" "status v = VStr ''checked-in''"
    "checkInTime v = VDate 1714550000124"
    by simp_all
  from t1 n e obtain vs where vs: "getActiveVisitors exampleOrd None None db' = Inr vs"
    "\<exists>w\<in>set vs. visitor_id w = ''docA'' \<and> status w = VStr ''checked-in''
        \<and> checkInTime w = VDate 1714550000124"
    by auto
  then have i: "getActiveVisitors_indexed exampleOrd None db' = Inr vs"
    by (auto simp: getActiveVisitors_def split: sum.splits
        simp: getActiveVisitors_indexed_def getDocs_def attempt_def andThen_Inl_iff
        dest!: mapDocs_error)
  obtain xs where xs: "getActiveVisitors_indexed exampleOrd None mixedDb = Inr xs"
    using mixedDb_active(1) by (cases "getActiveVisitors_indexed exampleOrd None mixedDb") auto
  obtain ys where ys: "getActiveVisitors_fallback None mixedDb = Inr ys"
    using mixedDb_active(2) by (cases "getActiveVisitors_fallback None mixedDb") auto
  have f: "map fst (filter (\<lambda>d. storedActive d \<and> hasCheckInTime d) (visitors mixedDb)) = [''a2'']"
    "map fst (filter storedActive (visitors mixedDb)) = [''a1'', ''a2'']"
    by (simp_all add: mixedDb_def storedActive_def hasCheckInTime_def get_Cons get_Nil)
  from t [where xs = xs and ys = ys] xs ys f
  have "mset (map visitor_id xs) = {#''a2''#}" "mset (map visitor_id ys) = {#''a1'', ''a2''#}"
    by simp_all
  then have B: "\<exists>xs. getActiveVisitors_indexed exampleOrd None mixedDb = Inr xs
         \<and> mset (map visitor_id xs) = {#''a2''#}"
    "\<exists>ys. getActiveVisitors_fallback None mixedDb = Inr ys
         \<and> mset (map visitor_id ys) = {#''a1'', ''a2''#}"
    using xs ys by auto
  have "\<exists>vs. getActiveVisitors exampleOrd None None db' = Inr vs
      \<and> getActiveVisitors_indexed exampleOrd None db' = Inr vs
      \<and> (\<exists>w\<in>set vs. visitor_id w = ''docA'' \<and> status w = VStr ''checked-in''
            \<and> checkInTime w = VDate 1714550000124)"
    using vs i by auto
  with c v n have "\<exists>db' v. checkInVisitor (sampleEnv ''docA'') emptyDb annData False = (db', Inr v)
        \<and> visitor_id v = ''docA'' \<and> status v = VStr ''checked-in''
        \<and> checkInTime v = VDate 1714550000124
        \<and> (\<forall>d\<in>set (visitors emptyDb). convertible (snd d))
        \<and> (\<exists>vs. getActiveVisitors exampleOrd None None db' = Inr vs
              \<and> getActiveVisitors_indexed exampleOrd None db' = Inr vs
              \<and> (\<exists>w\<in>set vs. visitor_id w = ''docA'' \<and> status w = VStr ''checked-in''
                    \<and> checkInTime w = VDate 1714550000124))"
    by auto
  with B show ?thesis
    by simp
qed

text \<open>
  Claim C1 as stated says that \<^verbatim>\<open>getActiveVisitors\<close> returns exactly the visitors whose
  status is \<^verbatim>\<open>'checked-in'\<close>. In the sample database the indexed query is served and
  returns only \<^verbatim>\<open>a2\<close>: \<^verbatim>\<open>a1\<close> is stored with that status but has no
  \<^verbatim>\<open>checkInTime\<close> to be ordered by, and \<^verbatim>\<open>a4\<close>, stored without a status, is mapped
  to a visitor with that status.
\<close>

theorem getActiveVisitors_not_exact:
  "map_sum id (map visitor_id) (getActiveVisitors exampleOrd None None mixedDb) = Inr [''a2'']
   \<and> visitors mixedDb ! 0 = (''a1'', [(''fullName'', VStr ''Ann''), (''status'', VStr ''checked-in'')])
   \<and> map_sum id status
        (mapDocToVisitor (''a1'', [(''fullName'', VStr ''Ann''), (''status'', VStr ''checked-in'')]))
       = Inr (VStr ''checked-in'')
   \<and> visitors mixedDb ! 3 = (''a4'', [(''fullName'', VStr ''Dee''), (''checkInTime'', VTime 7)])
   \<and> map_sum id status
        (mapDocToVisitor (''a4'', [(''fullName'', VStr ''Dee''), (''checkInTime'', VTime 7)]))
       = Inr (VStr ''checked-in'')"
  by (simp add: getActiveVisitors_def getActiveVisitors_indexed_def mixedDb_def
      getDocs_def attempt_def whereEq_def orderByDesc_def withField_def get_Cons get_Nil
      mapDocToVisitor_def mapHealthScreening_def)

subsection \<open>Document references\<close>

lemma splitSlash_plain: "CHR ''/'' \<notin> set v \<Longrightarrow> splitSlash v = [v]"
  by (induction v) auto

lemma doubleSlash_plain: "CHR ''/'' \<notin> set v \<Longrightarrow> \<not> doubleSlash v"
  by (induction v rule: doubleSlash.induct) auto

lemma doc_plain: "plainName v \<Longrightarrow> doc v = Inr [v]"
  by (simp add: plainName_def doc_def segments_def splitSlash_plain doubleSlash_plain)

text \<open>Ids that \<^verbatim>\<open>doc\<close> refuses, and ids it accepts.\<close>

lemma doc_examples:
  "doc [] = Inl (FirestoreError ''invalid-argument'')"
  "doc ''/'' = Inl (FirestoreError ''invalid-argument'')"
  "doc ''a/b'' = Inl (FirestoreError ''invalid-argument'')"
  "doc ''a//b/c'' = Inl (FirestoreError ''invalid-argument'')"
  "doc ''b1'' = Inr [''b1'']"
  "doc ''b1/'' = Inr [''b1'']"
  "doc ''/b1'' = Inr [''b1'']"
  "doc ''a/b/c'' = Inr [''a'', ''b'', ''c'']"
  by (simp_all add: doc_def segments_def)

lemma doc_error: "doc v = Inl e \<Longrightarrow> e = FirestoreError ''invalid-argument''"
  by (auto simp: doc_def split: if_splits)

lemma updateDoc_name:
  "updateDoc outcome coll [i] changes =
     (case outcome of
        Some e \<Rightarrow> Inl e
      | None \<Rightarrow>
          if i \<in> fst ` set coll
          then Inr (map (\<lambda>d. if fst d = i then (i, assign (snd d) (toFirestoreObj changes)) else d) coll)
          else Inl (FirestoreError ''not-found''))"
proof -
  have "(\<lambda>d. if [fst d] = [i] then (fst d, assign (snd d) (toFirestoreObj changes)) else d)
      = (\<lambda>d. if fst d = i then (i, assign (snd d) (toFirestoreObj changes)) else d)"
    by auto
  moreover have "([i] \<in> (\<lambda>d. [fst d]) ` set coll) = (i \<in> fst ` set coll)"
    by auto
  ultimately show ?thesis
    by (simp only: updateDoc_def)
qed

lemma updateDoc_nested:
  "length ref \<noteq> 1 \<Longrightarrow> updateDoc outcome coll ref changes =
     Inl (case outcome of Some e \<Rightarrow> e | None \<Rightarrow> FirestoreError ''not-found'')"
  by (auto simp: updateDoc_def split: option.splits)

subsection \<open>Check-out\<close>

lemma checkedOut_get:
  "get (checkedOut now data) k =
     (if k = ''status'' then Some (VStr ''checked-out'')
      else if k = ''checkOutTime'' then Some (VTime now)
      else get data k)"
  by (simp add: checkedOut_def assign_def toFirestoreObj_def get_put)

lemma checkOutVisitor_refused:
  "doc visitorId = Inl e \<Longrightarrow> checkOutVisitor env db visitorId = (db, Inl e)"
  by (simp add: checkOutVisitor_def)

lemma checkOutVisitor_nested:
  "doc visitorId = Inr ref \<Longrightarrow> length ref \<noteq> 1 \<Longrightarrow>
     checkOutVisitor env db visitorId =
       (db, Inl (case update_outcome env of Some e \<Rightarrow> e | None \<Rightarrow> FirestoreError ''not-found''))"
  by (simp add: checkOutVisitor_def updateDoc_nested)

lemma checkOutVisitor_unfold:
  "doc visitorId = Inr [n] \<Longrightarrow>
   checkOutVisitor env db visitorId =
     (case update_outcome env of
        Some e \<Rightarrow> (db, Inl e)
      | None \<Rightarrow>
          if n \<in> fst ` set (visitors db)
          then (logAudit (checkout_audit env)
                  (db\<lparr>visitors := map (\<lambda>d. if fst d = n
                                           then (n, checkedOut (now_checkout env) (snd d))
                                           else d) (visitors db)\<rparr>)
                  ''visitor_check_out'' ''system'' visitorId
                  [(''timestamp'', VStr (audit_stamp env))],
                Inr ())
          else (db, Inl (FirestoreError ''not-found'')))"
  unfolding checkedOut_def
  by (simp add: checkOutVisitor_def updateDoc_name split: option.splits)

lemma checkOutVisitor_success:
  assumes "checkOutVisitor env db visitorId = (db', Inr ())"
  shows "\<exists>n. doc visitorId = Inr [n]"
proof (cases "doc visitorId")
  case (Inl e)
  with assms show ?thesis
    by (simp add: checkOutVisitor_refused)
next
  case (Inr ref)
  show ?thesis
  proof (cases "length ref = 1")
    case True
    then obtain n where "ref = [n]"
      by (cases ref) auto
    with Inr show ?thesis
      by simp
  next
    case False
    with assms Inr show ?thesis
      by (simp add: checkOutVisitor_nested)
  qed
qed

lemma checkOutVisitor_failure:
  assumes "checkOutVisitor env db visitorId = (db', Inl e)"
  shows "db' = db"
proof (cases "doc visitorId")
  case (Inl f)
  with assms show ?thesis
    by (simp add: checkOutVisitor_refused)
next
  case (Inr ref)
  show ?thesis
  proof (cases "length ref = 1")
    case True
    then obtain n where "ref = [n]"
      by (cases ref) auto
    with assms Inr show ?thesis
      by (auto simp: checkOutVisitor_unfold split: option.splits if_splits)
  next
    case False
    with assms Inr show ?thesis
      by (simp add: checkOutVisitor_nested)
  qed
qed

lemma logAudit_cases:
  "logAudit env db a u i d = db
   \<or> (\<exists>x. logAudit env db a u i d = db\<lparr>audit_logs := insertDoc (audit_logs db) (audit_doc env) x\<rparr>)"
  unfolding logAudit_def addDoc_def
  by (cases "audit_outcome env") auto

lemma audit_logs_logAudit:
  assumes "l \<in> set (audit_logs db)"
  shows "l \<in> set (audit_logs (logAudit env db a u i d))"
proof -
  have "l \<in> set (insertDoc (audit_logs db) (audit_doc env) x)" for x
    unfolding set_insertDoc using assms by simp
  then show ?thesis
    using logAudit_cases [of env db a u i d] assms by auto
qed

lemma active_ids_subset:
  assumes "getActiveVisitors ord outcome outcome' db = Inr vs"
  shows "visitor_id ` set vs \<subseteq> fst ` {d \<in> set (visitors db). storedActive d}"
proof -
  have "getActiveVisitors_indexed ord outcome db = Inr vs
    \<or> getActiveVisitors_fallback outcome' db = Inr vs \<or> vs = []"
  proof (cases "getActiveVisitors_indexed ord outcome db")
    case (Inr ws)
    with assms show ?thesis by (simp add: getActiveVisitors_def)
  next
    case (Inl e)
    with assms show ?thesis
      by (cases "code e = Some ''failed-precondition''") (auto simp: getActiveVisitors_def)
  qed
  then consider "getActiveVisitors_indexed ord outcome db = Inr vs"
    | "getActiveVisitors_fallback outcome' db = Inr vs" | "vs = []"
    by blast
  then show ?thesis
  proof cases
    case 1
    from active_indexed_ids [OF this, THEN arg_cong, of set_mset] show ?thesis
      by auto
  next
    case 2
    from active_fallback_ids [OF this, THEN arg_cong, of set_mset] show ?thesis
      by auto
  next
    case 3
    then show ?thesis by simp
  qed
qed

text \<open>
  Claim C2. The visitor that \<^verbatim>\<open>checkOutVisitor\<close> identifies is the document whose
  reference \<^verbatim>\<open>doc\<close> builds from the id: for an id that is a document name, the
  visitor of that name. The call succeeds on every existing visitor whatever its status
  is, when the database accepts the write. It sets \<^verbatim>\<open>status\<close> to \<^verbatim>\<open>'checked-out'\<close>
  and \<^verbatim>\<open>checkOutTime\<close> to the clock reading, keeps every other field of that visitor
  and every other visitor record as it was, and leaves the audit records in place (it
  adds one). Afterwards no result of \<^verbatim>\<open>getActiveVisitors\<close> contains the visitor. A
  check-out that fails changes nothing.
\<close>

theorem checkOutVisitor_frame:
  "(plainName visitorId \<longrightarrow> doc visitorId = Inr [visitorId])
   \<and> (update_outcome env = None \<and> doc visitorId = Inr [n] \<and> n \<in> fst ` set (visitors db)
      \<longrightarrow> (\<exists>db'. checkOutVisitor env db visitorId = (db', Inr ())))
   \<and> (checkOutVisitor env db visitorId = (db', Inr ()) \<longrightarrow>
        (\<exists>n. doc visitorId = Inr [n]
           \<and> n \<in> fst ` set (visitors db)
           \<and> list_all2 (\<lambda>d d'. fst d' = fst d
                 \<and> (if fst d = n
                     then get (snd d') ''status'' = Some (VStr ''checked-out'')
                        \<and> get (snd d') ''checkOutTime'' = Some (VTime (now_checkout env))
                        \<and> (\<forall>k. k \<noteq> ''status'' \<and> k \<noteq> ''checkOutTime''
                               \<longrightarrow> get (snd d') k = get (snd d) k)
                     else d' = d))
               (visitors db) (visitors db')
           \<and> (\<forall>vs. getActiveVisitors ord outcome outcome' db' = Inr vs
                 \<longrightarrow> n \<notin> visitor_id ` set vs))
        \<and> set (audit_logs db) \<subseteq> set (audit_logs db'))
   \<and> (\<forall>e. checkOutVisitor env db visitorId = (db', Inl e) \<longrightarrow> db' = db)"
proof (intro conjI impI allI)
  assume "plainName visitorId"
  then show "doc visitorId = Inr [visitorId]"
    by (rule doc_plain)
next
  assume "update_outcome env = None \<and> doc visitorId = Inr [n] \<and> n \<in> fst ` set (visitors db)"
  then show "\<exists>db'. checkOutVisitor env db visitorId = (db', Inr ())"
    by (simp add: checkOutVisitor_unfold)
next
  fix e
  assume "checkOutVisitor env db visitorId = (db', Inl e)"
  then show "db' = db"
    by (rule checkOutVisitor_failure)
next
  assume c: "checkOutVisitor env db visitorId = (db', Inr ())"
  from checkOutVisitor_success [OF c] obtain m where r: "doc visitorId = Inr [m]"
    by blast
  from c have m: "m \<in> fst ` set (visitors db)"
    by (auto simp: checkOutVisitor_unfold [OF r] split: option.splits if_splits)
  let ?upd = "\<lambda>d. if fst d = m
      then (m, checkedOut (now_checkout env) (snd d)) else d"
  from c m have db': "db' = logAudit (checkout_audit env) (db\<lparr>visitors := map ?upd (visitors db)\<rparr>)
      ''visitor_check_out'' ''system'' visitorId [(''timestamp'', VStr (audit_stamp env))]"
    by (auto simp: checkOutVisitor_unfold [OF r] split: option.splits)
  then have v: "visitors db' = map ?upd (visitors db)"
    by simp
  have l: "list_all2 (\<lambda>d d'. fst d' = fst d
              \<and> (if fst d = m
                  then get (snd d') ''status'' = Some (VStr ''checked-out'')
                     \<and> get (snd d') ''checkOutTime'' = Some (VTime (now_checkout env))
                     \<and> (\<forall>k. k \<noteq> ''status'' \<and> k \<noteq> ''checkOutTime''
                            \<longrightarrow> get (snd d') k = get (snd d) k)
                  else d' = d))
            (visitors db) (visitors db')"
    unfolding v list_all2_map2
    by (rule list_all2_refl) (simp add: checkedOut_get)
  have a: "\<forall>vs. getActiveVisitors ord outcome outcome' db' = Inr vs
      \<longrightarrow> m \<notin> visitor_id ` set vs"
  proof (intro allI impI)
    fix vs
    assume "getActiveVisitors ord outcome outcome' db' = Inr vs"
    from active_ids_subset [OF this]
    have "visitor_id ` set vs \<subseteq> fst ` {d \<in> set (map ?upd (visitors db)). storedActive d}"
      by (simp add: v)
    moreover have "m \<notin> fst ` {d \<in> set (map ?upd (visitors db)). storedActive d}"
      by (auto simp: storedActive_def checkedOut_get)
    ultimately show "m \<notin> visitor_id ` set vs"
      by blast
  qed
  from r m l a show "\<exists>n. doc visitorId = Inr [n]
           \<and> n \<in> fst ` set (visitors db)
           \<and> list_all2 (\<lambda>d d'. fst d' = fst d
                 \<and> (if fst d = n
                     then get (snd d') ''status'' = Some (VStr ''checked-out'')
                        \<and> get (snd d') ''checkOutTime'' = Some (VTime (now_checkout env))
                        \<and> (\<forall>k. k \<noteq> ''status'' \<and> k \<noteq> ''checkOutTime''
                               \<longrightarrow> get (snd d') k = get (snd d) k)
                     else d' = d))
               (visitors db) (visitors db')
           \<and> (\<forall>vs. getActiveVisitors ord outcome outcome' db' = Inr vs
                 \<longrightarrow> n \<notin> visitor_id ` set vs)"
    by (intro exI [of _ m] conjI)
  show "set (audit_logs db) \<subseteq> set (audit_logs db')"
    unfolding db' using audit_logs_logAudit [of _ "db\<lparr>visitors := map ?upd (visitors db)\<rparr>"]
    by auto
qed

theorem checkOutVisitor_frame_witness:
  "plainName ''a2'' \<and> update_outcome sampleCheckout = None \<and> doc ''a2'' = Inr [''a2'']
   \<and> ''a2'' \<in> fst ` set (visitors mixedDb)
   \<and> (\<exists>db'. checkOutVisitor sampleCheckout mixedDb ''a2'' = (db', Inr ())
         \<and> visitors db' =
             [(''a1'', [(''fullName'', VStr ''Ann''), (''status'', VStr ''checked-in'')]),
              (''a2'', [(''fullName'', VStr ''Bob''), (''status'', VStr ''checked-out''),
                        (''checkInTime'', VTime 5), (''checkOutTime'', VTime 20)]),
              (''a3'', [(''fullName'', VStr ''Cid''), (''status'', VStr ''checked-out''),
                        (''checkInTime'', VTime 9), (''checkOutTime'', VTime 11)]),
              (''a4'', [(''fullName'', VStr ''Dee''), (''checkInTime'', VTime 7)])]
         \<and> (\<exists>vs. getActiveVisitors exampleOrd (Some (FirestoreError ''failed-precondition''))
                    None db' = Inr vs
               \<and> map visitor_id vs = [''a1''] \<and> ''a2'' \<notin> visitor_id ` set vs))"
proof -
  have p: "plainName ''a2''"
    by (simp add: plainName_def)
  have h: "update_outcome sampleCheckout = None" "''a2'' \<in> fst ` set (visitors mixedDb)"
    by (simp_all add: sampleCheckout_def mixedDb_def)
  note t = checkOutVisitor_frame [where env = sampleCheckout and db = mixedDb and visitorId = "''a2''"
      and n = "''a2''" and ord = exampleOrd
      and outcome = "Some (FirestoreError ''failed-precondition'')" and outcome' = None]
  from t [where db' = mixedDb] p have r: "doc ''a2'' = Inr [''a2'']"
    by blast
  from t [where db' = mixedDb] h r obtain db'
    where c: "checkOutVisitor sampleCheckout mixedDb ''a2'' = (db', Inr ())"
    by blast
  then have v: "visitors db' =
             [(''a1'', [(''fullName'', VStr ''Ann''), (''status'', VStr ''checked-in'')]),
              (''a2'', [(''fullName'', VStr ''Bob''), (''status'', VStr ''checked-out''),
                        (''checkInTime'', VTime 5), (''checkOutTime'', VTime 20)]),
              (''a3'', [(''fullName'', VStr ''Cid''), (''status'', VStr ''checked-out''),
                        (''checkInTime'', VTime 9), (''checkOutTime'', VTime 11)]),
              (''a4'', [(''fullName'', VStr ''Dee''), (''checkInTime'', VTime 7)])]"
    by (auto simp: checkOutVisitor_unfold [OF r] sampleCheckout_def mixedDb_def checkedOut_def
        assign_def toFirestoreObj_def put_def)
  have "map_sum id (map visitor_id) (getActiveVisitors_fallback None db') = Inr [''a1'']"
    by (simp add: getActiveVisitors_fallback_def v getDocs_def attempt_def whereEq_def
        get_Cons get_Nil mapDocToVisitor_def mapHealthScreening_def newestFirst_def)
  then obtain vs where vs: "getActiveVisitors_fallback None db' = Inr vs"
    "map visitor_id vs = [''a1'']"
    by (cases "getActiveVisitors_fallback None db'") auto
  then have g: "getActiveVisitors exampleOrd (Some (FirestoreError ''failed-precondition''))
      None db' = Inr vs"
    by (simp add: getActiveVisitors_def getActiveVisitors_indexed_def getDocs_def attempt_def)
  from t [where db' = db'] c r have "\<forall>vs. getActiveVisitors exampleOrd
      (Some (FirestoreError ''failed-precondition'')) None db' = Inr vs
        \<longrightarrow> ''a2'' \<notin> visitor_id ` set vs"
    by auto
  with g have "''a2'' \<notin> visitor_id ` set vs"
    by blast
  with g vs(2) have "\<exists>vs. getActiveVisitors exampleOrd (Some (FirestoreError ''failed-precondition''))
                    None db' = Inr vs
               \<and> map visitor_id vs = [''a1''] \<and> ''a2'' \<notin> visitor_id ` set vs"
    by (intro exI [of _ vs]) simp
  with c v show ?thesis
    by (intro conjI p h r exI [of _ db']) simp_all
qed

subsection \<open>Emergency evacuation\<close>

lemma evacuated_get:
  "get (evacuated now data) k =
     (if k = ''status'' then Some (VStr ''emergency-evacuated'')
      else if k = ''checkOutTime'' then Some (VTime now)
      else get data k)"
  by (simp add: evacuated_def assign_def toFirestoreObj_def get_put)

lemma evacuate_step:
  "updateDoc oc coll v
       [(''status'', VStr ''emergency-evacuated''), (''checkOutTime'', VTime t)] =
     (case oc of
        Some e \<Rightarrow> Inl e
      | None \<Rightarrow>
          if v \<in> (\<lambda>d. [fst d]) ` set coll
          then Inr (map (\<lambda>d. if [fst d] = v then (fst d, evacuated t (snd d)) else d) coll)
          else Inl (FirestoreError ''not-found''))"
  unfolding evacuated_def by (simp add: updateDoc_def split: option.splits)

lemma evacDoc_fst [simp]: "fst (evacDoc clock outcome i refs d) = fst d"
  by (induction refs arbitrary: i d) simp_all

lemma evacuate_docs:
  "fst (evacuate clock outcome i refs coll) = map (evacDoc clock outcome i refs) coll"
proof (induction refs arbitrary: i coll)
  case Nil
  then show ?case by simp
next
  case (Cons v vs)
  show ?case
  proof (cases "outcome i")
    case (Some e)
    then show ?thesis
      using Cons.IH [of "Suc i" coll] by (auto simp: evacuate_step split: prod.splits)
  next
    case None
    show ?thesis
    proof (cases "v \<in> (\<lambda>d. [fst d]) ` set coll")
      case True
      with None show ?thesis
        by (auto simp: evacuate_step Cons.IH)
    next
      case False
      then have "\<forall>d\<in>set coll. v \<noteq> [fst d]" by auto
      with None False show ?thesis
        using Cons.IH [of "Suc i" coll] by (auto simp: evacuate_step split: prod.splits)
    qed
  qed
qed

lemma evacuated_twice: "evacuated t (evacuated t' data) = evacuated t data"
proof -
  let ?e = "VStr ''emergency-evacuated''"
  let ?x = "AList.update ''checkOutTime'' (VTime t') (AList.update ''status'' ?e data)"
  have "map_of ?x ''status'' = Some ?e"
    by (simp add: update_conv')
  then have "AList.update ''status'' ?e ?x = ?x"
    by (rule update_triv)
  then show ?thesis
    by (simp add: evacuated_def assign_def toFirestoreObj_def put_def)
qed

lemma evacDoc_last:
  "evacDoc clock outcome i refs d =
     (case lastAccepted outcome i refs [fst d] of
        None \<Rightarrow> d
      | Some j \<Rightarrow> (fst d, evacuated (clock j) (snd d)))"
proof (induction refs arbitrary: i d)
  case Nil
  then show ?case by simp
next
  case (Cons v vs)
  show ?case
  proof (cases "v = [fst d] \<and> outcome i = None")
    case True
    then show ?thesis
      by (simp add: Cons.IH evacuated_twice split: option.splits)
  next
    case False
    then show ?thesis
      by (auto simp: Cons.IH split: option.splits)
  qed
qed

lemma lastAccepted_Some:
  "lastAccepted outcome i refs x = Some j
    \<Longrightarrow> \<exists>k<length refs. j = i + k \<and> refs ! k = x \<and> outcome j = None"
proof (induction refs arbitrary: i)
  case Nil
  then show ?case by simp
next
  case (Cons v vs)
  show ?case
  proof (cases "lastAccepted outcome (Suc i) vs x")
    case None
    with Cons.prems have "v = x" "outcome i = None" "j = i"
      by (auto split: if_splits)
    then show ?thesis
      by (intro exI [of _ 0]) simp
  next
    case (Some j')
    with Cons.prems have "j' = j" by simp
    with Some Cons.IH [of "Suc i"] obtain k
      where "k < length vs" "j = Suc i + k" "vs ! k = x" "outcome j = None"
      by blast
    then show ?thesis
      by (intro exI [of _ "Suc k"]) simp
  qed
qed

lemma lastAccepted_None:
  "lastAccepted outcome i refs x = None \<Longrightarrow> k < length refs \<Longrightarrow> refs ! k = x
    \<Longrightarrow> outcome (i + k) \<noteq> None"
proof (induction refs arbitrary: i k)
  case Nil
  then show ?case by simp
next
  case (Cons v vs)
  from Cons.prems(1) have t: "lastAccepted outcome (Suc i) vs x = None"
    and h: "\<not> (v = x \<and> outcome i = None)"
    by (auto split: option.splits if_splits)
  show ?case
  proof (cases k)
    case 0
    with Cons.prems h show ?thesis by simp
  next
    case (Suc k')
    with Cons.prems Cons.IH [OF t, of k'] show ?thesis by simp
  qed
qed

lemma evacuate_errors:
  "snd (evacuate clock outcome i refs coll)
     = evacErrors outcome i refs ((\<lambda>d. [fst d]) ` set coll)"
proof (induction refs arbitrary: i coll)
  case Nil
  then show ?case by simp
next
  case (Cons v vs)
  show ?case
  proof (cases "outcome i")
    case (Some e)
    then show ?thesis
      using Cons.IH [of "Suc i" coll] by (auto simp: evacuate_step split: prod.splits)
  next
    case None
    show ?thesis
    proof (cases "v \<in> (\<lambda>d. [fst d]) ` set coll")
      case True
      let ?c = "map (\<lambda>d. if [fst d] = v then (fst d, evacuated (clock i) (snd d)) else d) coll"
      have "map (\<lambda>d. [fst d]) ?c = map (\<lambda>d. [fst d]) coll"
        by simp
      then have "(\<lambda>d. [fst d]) ` set ?c = (\<lambda>d. [fst d]) ` set coll"
        by (metis set_map)
      with None True Cons.IH [of "Suc i" ?c] show ?thesis
        by (simp add: evacuate_step)
    next
      case False
      with None show ?thesis
        using Cons.IH [of "Suc i" coll] by (auto simp: evacuate_step split: prod.splits)
    qed
  qed
qed

lemma evacErrors_Nil:
  "evacErrors outcome i refs names = []
    \<longleftrightarrow> (\<forall>j<length refs. outcome (i + j) = None \<and> refs ! j \<in> names)"
proof (induction refs arbitrary: i)
  case Nil
  then show ?case by simp
next
  case (Cons v vs)
  show ?case
    by (cases "outcome i") (simp_all add: Cons.IH All_less_Suc2)
qed

lemma evacErrors_member:
  "e \<in> set (evacErrors outcome i refs names) \<Longrightarrow>
     \<exists>j<length refs. outcome (i + j) = Some e
        \<or> (outcome (i + j) = None \<and> refs ! j \<notin> names \<and> e = FirestoreError ''not-found'')"
proof (induction refs arbitrary: i)
  case Nil
  then show ?case by simp
next
  case (Cons v vs)
  have later: "\<exists>j<length (v # vs). outcome (i + j) = Some e
        \<or> (outcome (i + j) = None \<and> (v # vs) ! j \<notin> names \<and> e = FirestoreError ''not-found'')"
    if "e \<in> set (evacErrors outcome (Suc i) vs names)"
  proof -
    from Cons.IH [OF that] obtain j where "j < length vs"
      "outcome (Suc i + j) = Some e
        \<or> (outcome (Suc i + j) = None \<and> vs ! j \<notin> names \<and> e = FirestoreError ''not-found'')"
      by blast
    then show ?thesis
      by (intro exI [of _ "Suc j"]) simp
  qed
  have now: "\<exists>j<length (v # vs). outcome (i + j) = Some e
        \<or> (outcome (i + j) = None \<and> (v # vs) ! j \<notin> names \<and> e = FirestoreError ''not-found'')"
    if "outcome i = Some e \<or> (outcome i = None \<and> v \<notin> names \<and> e = FirestoreError ''not-found'')"
    using that by (intro exI [of _ 0]) simp
  from Cons.prems have "e \<in> set (evacErrors outcome (Suc i) vs names)
      \<or> outcome i = Some e
      \<or> (outcome i = None \<and> v \<notin> names \<and> e = FirestoreError ''not-found'')"
    by (cases "outcome i") (auto split: if_splits)
  then show ?case
    using now later by blast
qed

lemma list_all2_map_self: "(\<And>x. P x (f x)) \<Longrightarrow> list_all2 P xs (map f xs)"
  by (induction xs) auto

lemma promises_length: "length (fst (promises ids)) \<le> length ids"
  by (induction ids) (auto split: sum.splits prod.splits)

lemma promises_nth:
  "j < length (fst (promises ids)) \<Longrightarrow> doc (ids ! j) = Inr (fst (promises ids) ! j)"
proof (induction ids arbitrary: j)
  case Nil
  then show ?case by simp
next
  case (Cons v vs)
  show ?case
  proof (cases "doc v")
    case (Inl e)
    with Cons.prems show ?thesis by simp
  next
    case (Inr ref)
    with Cons.prems Cons.IH show ?thesis
      by (cases j) (auto split: prod.splits)
  qed
qed

lemma promises_thrown:
  "snd (promises ids) =
     (if length (fst (promises ids)) < length ids
      then Some (FirestoreError ''invalid-argument'') else None)"
proof (induction ids)
  case Nil
  then show ?case by simp
next
  case (Cons v vs)
  show ?case
  proof (cases "doc v")
    case (Inl e)
    with doc_error [OF Inl] show ?thesis by simp
  next
    case (Inr ref)
    with Cons.IH show ?thesis
      by (auto split: prod.splits)
  qed
qed

lemma promises_stop:
  "length (fst (promises ids)) < length ids \<Longrightarrow>
     doc (ids ! length (fst (promises ids))) = Inl (FirestoreError ''invalid-argument'')"
proof (induction ids)
  case Nil
  then show ?case by simp
next
  case (Cons v vs)
  show ?case
  proof (cases "doc v")
    case (Inl e)
    with doc_error [OF Inl] show ?thesis by simp
  next
    case (Inr ref)
    with Cons.prems Cons.IH show ?thesis
      by (auto split: prod.splits)
  qed
qed

lemma promises_plain:
  "\<forall>v\<in>set ids. plainName v \<Longrightarrow> promises ids = (map (\<lambda>v. [v]) ids, None)"
  by (induction ids) (simp_all add: doc_plain)

lemma emergencyEvacuation_unfold:
  "emergencyEvacuation clock outcome db ids =
     (db\<lparr>visitors := map (evacDoc clock outcome 0 (fst (promises ids))) (visitors db)\<rparr>,
      case snd (promises ids) of
        Some e \<Rightarrow> Inl e
      | None \<Rightarrow>
          (case evacErrors outcome 0 (fst (promises ids)) ((\<lambda>d. [fst d]) ` set (visitors db)) of
             [] \<Rightarrow> Inr ()
           | e # es \<Rightarrow> Inl e))"
proof -
  obtain refs thrown where p: "promises ids = (refs, thrown)"
    by (cases "promises ids")
  obtain docs es where e: "evacuate clock outcome 0 refs (visitors db) = (docs, es)"
    by (cases "evacuate clock outcome 0 refs (visitors db)")
  from e have "docs = map (evacDoc clock outcome 0 refs) (visitors db)"
    using evacuate_docs [of clock outcome 0 refs "visitors db"] by simp
  moreover from e have "es = evacErrors outcome 0 refs ((\<lambda>d. [fst d]) ` set (visitors db))"
    using evacuate_errors [of clock outcome 0 refs "visitors db"] by simp
  ultimately show ?thesis
    by (simp add: emergencyEvacuation_def p e split: list.splits option.splits)
qed

lemma evacDoc_effect:
  "fst (evacDoc clock outcome 0 refs d) = fst d
   \<and> (if \<exists>j<length refs. refs ! j = [fst d] \<and> outcome j = None
       then get (snd (evacDoc clock outcome 0 refs d)) ''status'' = Some (VStr ''emergency-evacuated'')
          \<and> (\<exists>j<length refs. refs ! j = [fst d] \<and> outcome j = None
                \<and> get (snd (evacDoc clock outcome 0 refs d)) ''checkOutTime'' = Some (VTime (clock j)))
          \<and> (\<forall>k. k \<noteq> ''status'' \<and> k \<noteq> ''checkOutTime''
                \<longrightarrow> get (snd (evacDoc clock outcome 0 refs d)) k = get (snd d) k)
       else evacDoc clock outcome 0 refs d = d)"
proof (cases "lastAccepted outcome 0 refs [fst d]")
  case None
  from lastAccepted_None [OF None]
  have "\<not> (\<exists>j<length refs. refs ! j = [fst d] \<and> outcome j = None)"
    by auto
  moreover from None have "evacDoc clock outcome 0 refs d = d"
    by (simp add: evacDoc_last)
  ultimately show ?thesis
    by (simp only: if_False simp_thms)
next
  case (Some j)
  from lastAccepted_Some [OF Some]
  have j: "j < length refs" "refs ! j = [fst d]" "outcome j = None"
    by auto
  then have "\<exists>j<length refs. refs ! j = [fst d] \<and> outcome j = None"
    by blast
  moreover have "\<exists>j<length refs. refs ! j = [fst d] \<and> outcome j = None
      \<and> get (snd (evacDoc clock outcome 0 refs d)) ''checkOutTime'' = Some (VTime (clock j))"
    using j by (intro exI [of _ j]) (simp add: evacDoc_last Some evacuated_get)
  ultimately show ?thesis
    by (simp add: evacDoc_last Some evacuated_get)
qed

lemma started_ref:
  "j < started ids \<Longrightarrow> (fst (promises ids) ! j = ref) = (doc (ids ! j) = Inr ref)"
  using promises_nth [of j ids] by (auto simp: started_def)

lemma evacDoc_started:
  "fst (evacDoc clock outcome 0 (fst (promises ids)) d) = fst d
   \<and> (if \<exists>j<started ids. doc (ids ! j) = Inr [fst d] \<and> outcome j = None
       then get (snd (evacDoc clock outcome 0 (fst (promises ids)) d)) ''status''
              = Some (VStr ''emergency-evacuated'')
          \<and> (\<exists>j<started ids. doc (ids ! j) = Inr [fst d] \<and> outcome j = None
                \<and> get (snd (evacDoc clock outcome 0 (fst (promises ids)) d)) ''checkOutTime''
                    = Some (VTime (clock j)))
          \<and> (\<forall>k. k \<noteq> ''status'' \<and> k \<noteq> ''checkOutTime''
                \<longrightarrow> get (snd (evacDoc clock outcome 0 (fst (promises ids)) d)) k = get (snd d) k)
       else evacDoc clock outcome 0 (fst (promises ids)) d = d)"
proof -
  let ?refs = "fst (promises ids)"
  let ?d' = "evacDoc clock outcome 0 ?refs d"
  have a: "(\<exists>j<length ?refs. ?refs ! j = [fst d] \<and> outcome j = None)
      = (\<exists>j<started ids. doc (ids ! j) = Inr [fst d] \<and> outcome j = None)"
    using started_ref [of _ ids "[fst d]"] by (auto simp: started_def)
  have b: "(\<exists>j<length ?refs. ?refs ! j = [fst d] \<and> outcome j = None
        \<and> get (snd ?d') ''checkOutTime'' = Some (VTime (clock j)))
      = (\<exists>j<started ids. doc (ids ! j) = Inr [fst d] \<and> outcome j = None
        \<and> get (snd ?d') ''checkOutTime'' = Some (VTime (clock j)))"
    using started_ref [of _ ids "[fst d]"] by (auto simp: started_def)
  from evacDoc_effect [of clock outcome ?refs d] show ?thesis
    unfolding a b .
qed

text \<open>
  Claim C6, as the code has it. \<^verbatim>\<open>emergencyEvacuation\<close> starts the writes of the listed
  ids in turn, up to the first id that \<^verbatim>\<open>doc\<close> refuses: there the call throws
  \<^verbatim>\<open>invalid-argument\<close> and the writes of the later ids are not started. When every
  id is a document name, one write is started per listed id, through the reference of
  that name. Each write that is started has its own outcome. Every visitor with an
  accepted write ends with status \<^verbatim>\<open>'emergency-evacuated'\<close> and \<^verbatim>\<open>checkOutTime\<close> at the
  clock reading of such a write, its other fields unchanged, whatever happened to the other
  writes and to the call; every other record stays as it was. Nothing is rolled back. The
  call resolves only when every listed id had its write started and accepted; otherwise it
  rejects with one error, that of \<^verbatim>\<open>doc\<close> or that of one rejected write, and the caller
  shows the same alert whichever writes failed.
\<close>

theorem emergencyEvacuation_no_rollback:
  "emergencyEvacuation clock outcome db visitorIds = (db', r) \<Longrightarrow>
     started visitorIds \<le> length visitorIds
     \<and> (\<forall>j<started visitorIds. \<exists>ref. doc (visitorIds ! j) = Inr ref)
     \<and> (started visitorIds < length visitorIds \<longrightarrow>
          doc (visitorIds ! started visitorIds) = Inl (FirestoreError ''invalid-argument'')
          \<and> r = Inl (FirestoreError ''invalid-argument''))
     \<and> ((\<forall>v\<in>set visitorIds. plainName v) \<longrightarrow>
          started visitorIds = length visitorIds
          \<and> (\<forall>j<length visitorIds. doc (visitorIds ! j) = Inr [visitorIds ! j]))
     \<and> list_all2 (\<lambda>d d'. fst d' = fst d
         \<and> (if \<exists>j<started visitorIds. doc (visitorIds ! j) = Inr [fst d] \<and> outcome j = None
             then get (snd d') ''status'' = Some (VStr ''emergency-evacuated'')
                \<and> (\<exists>j<started visitorIds. doc (visitorIds ! j) = Inr [fst d] \<and> outcome j = None
                      \<and> get (snd d') ''checkOutTime'' = Some (VTime (clock j)))
                \<and> (\<forall>k. k \<noteq> ''status'' \<and> k \<noteq> ''checkOutTime''
                      \<longrightarrow> get (snd d') k = get (snd d) k)
             else d' = d))
       (visitors db) (visitors db')
     \<and> audit_logs db' = audit_logs db
     \<and> ((r = Inr ()) = (started visitorIds = length visitorIds
            \<and> (\<forall>j<length visitorIds. outcome j = None
                  \<and> (\<exists>i\<in>fst ` set (visitors db). doc (visitorIds ! j) = Inr [i]))))
     \<and> (\<forall>e. r = Inl e \<and> started visitorIds = length visitorIds \<longrightarrow>
           (\<exists>j<length visitorIds. outcome j = Some e
              \<or> (outcome j = None
                  \<and> (\<forall>i\<in>fst ` set (visitors db). doc (visitorIds ! j) \<noteq> Inr [i])
                  \<and> e = FirestoreError ''not-found'')))
     \<and> handleEmergencyEvacuation clock outcome db visitorIds =
         (db', if r = Inr ()
               then ''Emergency evacuation completed for '' @ showNat (length visitorIds)
                      @ '' visitors.''
               else ''Emergency evacuation failed. Please try again.'')"
proof -
  assume a: "emergencyEvacuation clock outcome db visitorIds = (db', r)"
  let ?refs = "fst (promises visitorIds)"
  let ?paths = "(\<lambda>d. [fst d]) ` set (visitors db)"
  let ?es = "evacErrors outcome 0 ?refs ?paths"
  from a have db': "db' = db\<lparr>visitors := map (evacDoc clock outcome 0 ?refs) (visitors db)\<rparr>"
    and r: "r = (case snd (promises visitorIds) of
                   Some e \<Rightarrow> Inl e
                 | None \<Rightarrow> (case ?es of [] \<Rightarrow> Inr () | e # es \<Rightarrow> Inl e))"
    by (simp_all add: emergencyEvacuation_unfold)
  have n: "started visitorIds = length ?refs"
    by (simp add: started_def)
  have path: "(?refs ! j \<in> ?paths) = (\<exists>i\<in>fst ` set (visitors db). doc (visitorIds ! j) = Inr [i])"
    if "j < started visitorIds" for j
    using started_ref [OF that] by auto
  have 1: "started visitorIds \<le> length visitorIds"
    unfolding n by (rule promises_length)
  have 2: "\<forall>j<started visitorIds. \<exists>ref. doc (visitorIds ! j) = Inr ref"
    unfolding n using promises_nth by blast
  have 3: "started visitorIds < length visitorIds \<longrightarrow>
          doc (visitorIds ! started visitorIds) = Inl (FirestoreError ''invalid-argument'')
          \<and> r = Inl (FirestoreError ''invalid-argument'')"
    unfolding n using promises_stop [of visitorIds] promises_thrown [of visitorIds]
    by (simp add: r)
  have 4: "(\<forall>v\<in>set visitorIds. plainName v) \<longrightarrow>
          started visitorIds = length visitorIds
          \<and> (\<forall>j<length visitorIds. doc (visitorIds ! j) = Inr [visitorIds ! j])"
    by (auto simp: n promises_plain doc_plain)
  have 5: "list_all2 (\<lambda>d d'. fst d' = fst d
         \<and> (if \<exists>j<started visitorIds. doc (visitorIds ! j) = Inr [fst d] \<and> outcome j = None
             then get (snd d') ''status'' = Some (VStr ''emergency-evacuated'')
                \<and> (\<exists>j<started visitorIds. doc (visitorIds ! j) = Inr [fst d] \<and> outcome j = None
                      \<and> get (snd d') ''checkOutTime'' = Some (VTime (clock j)))
                \<and> (\<forall>k. k \<noteq> ''status'' \<and> k \<noteq> ''checkOutTime''
                      \<longrightarrow> get (snd d') k = get (snd d) k)
             else d' = d))
       (visitors db) (visitors db')"
  proof -
    have "visitors db' = map (evacDoc clock outcome 0 ?refs) (visitors db)"
      by (simp add: db')
    then show ?thesis
      by (simp only:) (rule list_all2_map_self, rule evacDoc_started)
  qed
  have 6: "audit_logs db' = audit_logs db"
    by (simp add: db')
  have none: "(snd (promises visitorIds) = None) = (started visitorIds = length visitorIds)"
    using promises_thrown [of visitorIds] 1 by (auto simp: n)
  have 7: "(r = Inr ()) = (started visitorIds = length visitorIds
            \<and> (\<forall>j<length visitorIds. outcome j = None
                  \<and> (\<exists>i\<in>fst ` set (visitors db). doc (visitorIds ! j) = Inr [i])))"
  proof (cases "started visitorIds = length visitorIds")
    case True
    with none have t: "snd (promises visitorIds) = None"
      by simp
    have "(?es = []) = (\<forall>j<length visitorIds. outcome j = None
                  \<and> (\<exists>i\<in>fst ` set (visitors db). doc (visitorIds ! j) = Inr [i]))"
      using evacErrors_Nil [of outcome 0 ?refs ?paths] path True n by auto
    with True t show ?thesis
      by (cases ?es) (simp_all add: r)
  next
    case False
    with none obtain e where "snd (promises visitorIds) = Some e"
      by (cases "snd (promises visitorIds)") auto
    with False show ?thesis
      by (simp add: r)
  qed
  have 8: "\<forall>e. r = Inl e \<and> started visitorIds = length visitorIds \<longrightarrow>
           (\<exists>j<length visitorIds. outcome j = Some e
              \<or> (outcome j = None
                  \<and> (\<forall>i\<in>fst ` set (visitors db). doc (visitorIds ! j) \<noteq> Inr [i])
                  \<and> e = FirestoreError ''not-found''))"
  proof (intro allI impI)
    fix e
    assume h: "r = Inl e \<and> started visitorIds = length visitorIds"
    with none have t: "snd (promises visitorIds) = None"
      by simp
    with h have "e \<in> set ?es"
      by (cases ?es) (simp_all add: r)
    from evacErrors_member [OF this] obtain j where j: "j < length ?refs"
      "outcome j = Some e
        \<or> (outcome j = None \<and> ?refs ! j \<notin> ?paths \<and> e = FirestoreError ''not-found'')"
      by auto
    from j(1) have "j < started visitorIds"
      by (simp add: n)
    from path [OF this] j(2) have "outcome j = Some e
        \<or> (outcome j = None
            \<and> (\<forall>i\<in>fst ` set (visitors db). doc (visitorIds ! j) \<noteq> Inr [i])
            \<and> e = FirestoreError ''not-found'')"
      by auto
    with j(1) h n show "\<exists>j<length visitorIds. outcome j = Some e
              \<or> (outcome j = None
                  \<and> (\<forall>i\<in>fst ` set (visitors db). doc (visitorIds ! j) \<noteq> Inr [i])
                  \<and> e = FirestoreError ''not-found'')"
      by (intro exI [of _ j]) simp
  qed
  have 9: "handleEmergencyEvacuation clock outcome db visitorIds =
         (db', if r = Inr ()
               then ''Emergency evacuation completed for '' @ showNat (length visitorIds)
                      @ '' visitors.''
               else ''Emergency evacuation failed. Please try again.'')"
    by (cases r) (simp_all add: handleEmergencyEvacuation_def a)
  from 1 2 3 4 5 6 7 8 9 show ?thesis
    by (intro conjI)
qed

theorem emergencyEvacuation_no_rollback_witness:
  "plainName ''b1'' \<and> plainName ''b2'' \<and> plainName ''b3''
   \<and> started [''b1'', ''b2'', ''b3''] = 3
   \<and> (\<exists>db'. emergencyEvacuation (\<lambda>j. 100 + int j) secondRejected wardDb [''b1'', ''b2'', ''b3'']
        = (db', Inl (FirestoreError ''unavailable''))
     \<and> visitors db' =
         [(''b1'', [(''fullName'', VStr ''Ann''), (''status'', VStr ''emergency-evacuated''),
                    (''checkInTime'', VTime 5), (''checkOutTime'', VTime 100)]),
          (''b2'', [(''fullName'', VStr ''Bob''), (''status'', VStr ''checked-in''),
                    (''checkInTime'', VTime 6)]),
          (''b3'', [(''fullName'', VStr ''Cid''), (''status'', VStr ''emergency-evacuated''),
                    (''checkInTime'', VTime 7), (''checkOutTime'', VTime 102)])]
     \<and> handleEmergencyEvacuation (\<lambda>j. 100 + int j) secondRejected wardDb [''b1'', ''b2'', ''b3'']
        = (db', ''Emergency evacuation failed. Please try again.''))
   \<and> started [''b1'', '''', ''b3''] = 1
   \<and> doc '''' = Inl (FirestoreError ''invalid-argument'')
   \<and> (\<exists>db'. emergencyEvacuation wardClock allAccepted wardDb [''b1'', '''', ''b3'']
        = (db', Inl (FirestoreError ''invalid-argument''))
     \<and> map (\<lambda>d. get (snd d) ''status'') (visitors db') =
         [Some (VStr ''emergency-evacuated''), Some (VStr ''checked-in''), Some (VStr ''checked-in'')]
     \<and> handleEmergencyEvacuation wardClock allAccepted wardDb [''b1'', '''', ''b3'']
        = (db', ''Emergency evacuation failed. Please try again.''))"
proof -
  let ?docs = "[(''b1'', [(''fullName'', VStr ''Ann''), (''status'', VStr ''emergency-evacuated''),
                    (''checkInTime'', VTime 5), (''checkOutTime'', VTime 100)]),
          (''b2'', [(''fullName'', VStr ''Bob''), (''status'', VStr ''checked-in''),
                    (''checkInTime'', VTime 6)]),
          (''b3'', [(''fullName'', VStr ''Cid''), (''status'', VStr ''emergency-evacuated''),
                    (''checkInTime'', VTime 7), (''checkOutTime'', VTime 102)])]"
  have p: "\<forall>v\<in>set [''b1'', ''b2'', ''b3'']. plainName v"
    by (simp add: plainName_def)
  have q: "promises [''b1'', ''b2'', ''b3''] = ([[''b1''], [''b2''], [''b3'']], None)"
    using promises_plain [OF p] by (simp del: promises.simps)
  have e: "emergencyEvacuation (\<lambda>j. 100 + int j) secondRejected wardDb [''b1'', ''b2'', ''b3'']
      = (wardDb\<lparr>visitors := ?docs\<rparr>, Inl (FirestoreError ''unavailable''))"
    unfolding emergencyEvacuation_def q
    by (simp add: wardDb_def secondRejected_def updateDoc_def
        assign_def toFirestoreObj_def put_def)
  note t = emergencyEvacuation_no_rollback [OF e]
  from t p have s: "started [''b1'', ''b2'', ''b3''] = 3"
    by simp
  from t
  have "handleEmergencyEvacuation (\<lambda>j. 100 + int j) secondRejected wardDb [''b1'', ''b2'', ''b3'']
        = (wardDb\<lparr>visitors := ?docs\<rparr>, ''Emergency evacuation failed. Please try again.'')"
    by simp
  with e have "\<exists>db'. emergencyEvacuation (\<lambda>j. 100 + int j) secondRejected wardDb [''b1'', ''b2'', ''b3'']
        = (db', Inl (FirestoreError ''unavailable''))
     \<and> visitors db' = ?docs
     \<and> handleEmergencyEvacuation (\<lambda>j. 100 + int j) secondRejected wardDb [''b1'', ''b2'', ''b3'']
        = (db', ''Emergency evacuation failed. Please try again.'')"
    by (intro exI [of _ "wardDb\<lparr>visitors := ?docs\<rparr>"]) simp
  then have first: "\<exists>db'. emergencyEvacuation (\<lambda>j. 100 + int j) secondRejected wardDb [''b1'', ''b2'', ''b3'']
        = (db', Inl (FirestoreError ''unavailable''))
     \<and> visitors db' = ?docs
     \<and> handleEmergencyEvacuation (\<lambda>j. 100 + int j) secondRejected wardDb [''b1'', ''b2'', ''b3'']
        = (db', ''Emergency evacuation failed. Please try again.'')" .
  let ?left = "[(''b1'', [(''fullName'', VStr ''Ann''), (''status'', VStr ''emergency-evacuated''),
                    (''checkInTime'', VTime 5), (''checkOutTime'', VTime 100)]),
          (''b2'', [(''fullName'', VStr ''Bob''), (''status'', VStr ''checked-in''),
                    (''checkInTime'', VTime 6)]),
          (''b3'', [(''fullName'', VStr ''Cid''), (''status'', VStr ''checked-in''),
                    (''checkInTime'', VTime 7)])]"
  have f: "emergencyEvacuation wardClock allAccepted wardDb [''b1'', '''', ''b3'']
      = (wardDb\<lparr>visitors := ?left\<rparr>, Inl (FirestoreError ''invalid-argument''))"
    by (simp add: emergencyEvacuation_def doc_def segments_def wardDb_def wardClock_def
        allAccepted_def updateDoc_def assign_def toFirestoreObj_def put_def)
  note u = emergencyEvacuation_no_rollback [OF f]
  have n: "started [''b1'', '''', ''b3''] = 1"
    by (simp add: started_def doc_def segments_def)
  with u have d: "doc '''' = Inl (FirestoreError ''invalid-argument'')"
    by simp
  from u
  have "handleEmergencyEvacuation wardClock allAccepted wardDb [''b1'', '''', ''b3'']
        = (wardDb\<lparr>visitors := ?left\<rparr>, ''Emergency evacuation failed. Please try again.'')"
    by simp
  with f have second: "\<exists>db'. emergencyEvacuation wardClock allAccepted wardDb [''b1'', '''', ''b3'']
        = (db', Inl (FirestoreError ''invalid-argument''))
     \<and> map (\<lambda>d. get (snd d) ''status'') (visitors db') =
         [Some (VStr ''emergency-evacuated''), Some (VStr ''checked-in''), Some (VStr ''checked-in'')]
     \<and> handleEmergencyEvacuation wardClock allAccepted wardDb [''b1'', '''', ''b3'']
        = (db', ''Emergency evacuation failed. Please try again.'')"
    by (intro exI [of _ "wardDb\<lparr>visitors := ?left\<rparr>"]) (simp add: get_Cons get_Nil)
  from p s first n d second show ?thesis
    by (intro conjI) simp_all
qed

text \<open>
  Claim C6 as stated has one write per listed visitor for every list of ids. In the list
  \<^verbatim>\<open>['b1', '', 'b3']\<close> the second id is empty: \<^verbatim>\<open>doc\<close> refuses it, the call rejects
  with \<^verbatim>\<open>invalid-argument\<close>, and no write is started for \<^verbatim>\<open>b3\<close>, which stays checked
  in although the database accepts every write it receives. The write for \<^verbatim>\<open>b1\<close>, started
  before, is applied.
\<close>

theorem emergencyEvacuation_stops_at_refused_id:
  "emergencyEvacuation wardClock allAccepted wardDb [''b1'', '''', ''b3''] =
     (wardDb\<lparr>visitors :=
         [(''b1'', [(''fullName'', VStr ''Ann''), (''status'', VStr ''emergency-evacuated''),
                    (''checkInTime'', VTime 5), (''checkOutTime'', VTime 100)]),
          (''b2'', [(''fullName'', VStr ''Bob''), (''status'', VStr ''checked-in''),
                    (''checkInTime'', VTime 6)]),
          (''b3'', [(''fullName'', VStr ''Cid''), (''status'', VStr ''checked-in''),
                    (''checkInTime'', VTime 7)])]\<rparr>,
      Inl (FirestoreError ''invalid-argument''))"
  by (simp add: emergencyEvacuation_def doc_def segments_def wardDb_def wardClock_def
      allAccepted_def updateDoc_def assign_def toFirestoreObj_def put_def)

subsection \<open>The two paths of the active query\<close>

lemma insort_key_map:
  "insort_key g (h x) (map h ys) = map h (insort_key (\<lambda>x. g (h x)) x ys)"
  by (induction ys) simp_all

lemma sort_key_map: "sort_key g (map h xs) = map h (sort_key (\<lambda>x. g (h x)) xs)"
  by (induction xs) (simp_all add: insort_key_map)

lemma insort_key_cong_set:
  "f x = f' x \<Longrightarrow> \<forall>y\<in>set ys. f y = f' y \<Longrightarrow> insort_key f x ys = insort_key f' x ys"
  by (induction ys) simp_all

lemma sort_key_cong_set:
  "\<forall>x\<in>set xs. f x = f' x \<Longrightarrow> sort_key f xs = sort_key f' xs"
proof (induction xs)
  case Nil
  then show ?case by simp
next
  case (Cons x xs)
  then have s: "sort_key f xs = sort_key f' xs" and x: "f x = f' x"
    and r: "\<forall>y\<in>set (sort_key f' xs). f y = f' y"
    by simp_all
  have "insort_key f x (sort_key f' xs) = insort_key f' x (sort_key f' xs)"
    by (rule insort_key_cong_set [OF x r])
  then show ?case
    by (simp only: sort_key_simps s)
qed

lemma timeOrZero_mapped:
  "mapDocToVisitor d = Inr v \<Longrightarrow> timeOrZero (checkInTime v) = checkInMillis d"
  using mapDocToVisitor_fields(12) [of "fst d" "snd d" v]
  by (auto simp: checkInMillis_def split: option.splits fval.splits)

lemma mapDocs_sort_key:
  assumes "mapDocs docs = Inr vs"
  shows "mapDocs (sort_key (\<lambda>d. - checkInMillis d) docs) = Inr (newestFirst vs)"
proof -
  let ?G = "\<lambda>d. projr (mapDocToVisitor d)"
  have vs: "vs = map ?G docs"
    by (rule mapDocs_map [OF assms])
  have ok: "\<forall>d\<in>set docs. \<exists>v. mapDocToVisitor d = Inr v"
    using assms mapDocs_all by blast
  then have "\<forall>d\<in>set (sort_key (\<lambda>d. - checkInMillis d) docs). \<exists>v. mapDocToVisitor d = Inr v"
    by simp
  then obtain ws where ws: "mapDocs (sort_key (\<lambda>d. - checkInMillis d) docs) = Inr ws"
    using mapDocs_all by blast
  have "\<forall>d\<in>set docs. - timeOrZero (checkInTime (?G d)) = - checkInMillis d"
    using ok timeOrZero_mapped by fastforce
  then have "sort_key (\<lambda>d. - timeOrZero (checkInTime (?G d))) docs
      = sort_key (\<lambda>d. - checkInMillis d) docs"
    by (rule sort_key_cong_set)
  then have "newestFirst vs = map ?G (sort_key (\<lambda>d. - checkInMillis d) docs)"
    by (simp add: newestFirst_def vs sort_key_map)
  also have "\<dots> = ws"
    using mapDocs_map [OF ws] by simp
  finally show ?thesis
    using ws by simp
qed

lemma withField_timestamped:
  assumes "timestamped docs" and "p \<in> set (withField ''checkInTime'' docs)"
  shows "fst p = VTime (checkInMillis (snd p))" and "snd p \<in> set docs"
proof -
  from assms(2) have "snd p \<in> set (map snd (withField ''checkInTime'' docs))"
    by simp
  then show d: "snd p \<in> set docs"
    by (simp add: map_snd_withField)
  with assms(1) obtain t where t: "get (snd (snd p)) ''checkInTime'' = Some (VTime t)"
    by (auto simp: timestamped_def)
  then have "checkInMillis (snd p) = t"
    by (simp add: checkInMillis_def)
  moreover from withField_fst [OF assms(2)] t have "fst p = VTime t"
    by simp
  ultimately show "fst p = VTime (checkInMillis (snd p))"
    by simp
qed

lemma timestamped_all:
  "timestamped docs \<Longrightarrow> filter (\<lambda>d. get (snd d) ''checkInTime'' \<noteq> None) docs = docs"
  by (auto simp: timestamped_def filter_id_conv)

lemma orderByDesc_timestamped:
  assumes c: "chronological ord" and t: "timestamped docs"
    and i: "distinct (map checkInMillis docs)"
  shows "orderByDesc ord ''checkInTime'' docs = sort_key (\<lambda>d. - checkInMillis d) docs"
proof -
  let ?W = "withField ''checkInTime'' docs"
  let ?S = "sort_key (\<lambda>p. ord (fst p)) ?W"
  let ?P = "orderByDesc ord ''checkInTime'' docs"
  note all = timestamped_all [OF t]
  have m: "mset docs = mset ?P"
    by (simp only: mset_orderByDesc all)
  have inj: "inj_on (\<lambda>d. - checkInMillis d) (set docs)"
    using i by (auto simp: distinct_map inj_on_def)
  have "sorted (map (\<lambda>p. ord (fst p)) ?S)"
    by (rule sorted_sort_key)
  then have "sorted_wrt (\<lambda>p q. ord (fst p) \<le> ord (fst q)) ?S"
    by (simp add: sorted_map)
  then have "sorted_wrt (\<lambda>p q. checkInMillis (snd p) \<le> checkInMillis (snd q)) ?S"
  proof (rule sorted_wrt_mono_rel [rotated])
    fix p q
    assume "p \<in> set ?S" "q \<in> set ?S" "ord (fst p) \<le> ord (fst q)"
    then show "checkInMillis (snd p) \<le> checkInMillis (snd q)"
      using withField_timestamped(1) [OF t, of p] withField_timestamped(1) [OF t, of q] c
      by (simp add: chronological_def)
  qed
  then have "sorted (map (\<lambda>d. - checkInMillis d) ?P)"
    by (simp add: orderByDesc_def sorted_map sorted_wrt_map sorted_wrt_rev rev_map [symmetric])
  from sort_key_inj_key_eq [OF m inj this] show ?thesis
    by simp
qed


lemma mapDocs_same_set:
  assumes "set docs = set docs'" and "mapDocs docs = Inl e"
  shows "mapDocs docs' = Inl e"
proof -
  have "\<not> (\<exists>vs. mapDocs docs' = Inr vs)"
    using assms mapDocs_all [of docs] mapDocs_all [of docs'] by auto
  then obtain e' where "mapDocs docs' = Inl e'"
    by (cases "mapDocs docs'") auto
  then show ?thesis
    using mapDocs_error assms(2) by metis
qed

lemma active_paths_equal:
  assumes "chronological ord" and "timestamped (filter storedActive (visitors db))"
    and "distinct (map checkInMillis (filter storedActive (visitors db)))"
  shows "getActiveVisitors_fallback outcome db = getActiveVisitors_indexed ord outcome db"
proof (cases outcome)
  case (Some e)
  then show ?thesis
    by (simp add: getActiveVisitors_fallback_def getActiveVisitors_indexed_def getDocs_def
        attempt_def)
next
  case None
  let ?D = "filter storedActive (visitors db)"
  have o: "orderByDesc ord ''checkInTime'' ?D = sort_key (\<lambda>d. - checkInMillis d) ?D"
    by (rule orderByDesc_timestamped [OF assms])
  have i: "getActiveVisitors_indexed ord outcome db = mapDocs (sort_key (\<lambda>d. - checkInMillis d) ?D)"
    by (simp add: getActiveVisitors_indexed_def getDocs_def attempt_def None whereEq_status o)
  have f: "getActiveVisitors_fallback outcome db = andThen (mapDocs ?D) (\<lambda>vs. Inr (newestFirst vs))"
    by (simp add: getActiveVisitors_fallback_def getDocs_def attempt_def None whereEq_status)
  show ?thesis
  proof (cases "mapDocs ?D")
    case (Inr vs)
    then show ?thesis
      by (simp add: i f mapDocs_sort_key)
  next
    case (Inl e)
    have "set ?D = set (sort_key (\<lambda>d. - checkInMillis d) ?D)"
      by simp
    from mapDocs_same_set [OF this Inl] Inl show ?thesis
      by (simp add: i f)
  qed
qed

lemma active_paths_same_visitors:
  assumes "timestamped (filter storedActive (visitors db))"
  shows "(\<forall>vs. getActiveVisitors_indexed ord outcome db = Inr vs
            \<longrightarrow> (\<exists>ws. getActiveVisitors_fallback outcome db = Inr ws \<and> mset ws = mset vs))
       \<and> (\<forall>e. getActiveVisitors_indexed ord outcome db = Inl e
            \<longrightarrow> getActiveVisitors_fallback outcome db = Inl e)"
proof (cases outcome)
  case (Some e)
  then show ?thesis
    by (simp add: getActiveVisitors_fallback_def getActiveVisitors_indexed_def getDocs_def
        attempt_def)
next
  case None
  let ?D = "filter storedActive (visitors db)"
  let ?P = "orderByDesc ord ''checkInTime'' ?D"
  note all = timestamped_all [OF assms]
  have m: "mset ?P = mset ?D"
    by (simp only: mset_orderByDesc all)
  have i: "getActiveVisitors_indexed ord outcome db = mapDocs ?P"
    by (simp add: getActiveVisitors_indexed_def getDocs_def attempt_def None whereEq_status)
  have f: "getActiveVisitors_fallback outcome db = andThen (mapDocs ?D) (\<lambda>vs. Inr (newestFirst vs))"
    by (simp add: getActiveVisitors_fallback_def getDocs_def attempt_def None whereEq_status)
  show ?thesis
  proof (intro conjI allI impI)
    fix vs
    assume "getActiveVisitors_indexed ord outcome db = Inr vs"
    then have "mapDocs ?P = Inr vs" by (simp add: i)
    from mapDocs_perm [OF m this] obtain ws where "mapDocs ?D = Inr ws" "mset ws = mset vs"
      by blast
    then show "\<exists>ws. getActiveVisitors_fallback outcome db = Inr ws \<and> mset ws = mset vs"
      by (simp add: f)
  next
    fix e
    assume "getActiveVisitors_indexed ord outcome db = Inl e"
    then have "mapDocs ?P = Inl e" by (simp add: i)
    moreover have "set ?P = set ?D"
      using m by (metis set_mset_mset)
    ultimately have "mapDocs ?D = Inl e"
      by (rule mapDocs_same_set [rotated])
    then show "getActiveVisitors_fallback outcome db = Inl e"
      by (simp add: f)
  qed
qed

lemma newestFirst_sorted: "sorted (map (\<lambda>v. - timeOrZero (checkInTime v)) (newestFirst vs))"
  unfolding newestFirst_def by (rule sorted_sort_key)

text \<open>
  Claim C5, as the code has it. When every visitor stored with status
  \<^verbatim>\<open>'checked-in'\<close> has a Timestamp as \<^verbatim>\<open>checkInTime\<close>, the fallback path returns the
  same visitors as the indexed path, all with status \<^verbatim>\<open>'checked-in'\<close> and newest first,
  and fails where the indexed path fails; when the check-in times of those visitors are
  also pairwise distinct, the two paths return the same list.
\<close>

theorem active_fallback_agrees:
  "(timestamped (filter storedActive (visitors db)) \<longrightarrow>
      (\<forall>vs. getActiveVisitors_indexed ord outcome db = Inr vs
          \<longrightarrow> (\<exists>ws. getActiveVisitors_fallback outcome db = Inr ws \<and> mset ws = mset vs
                 \<and> sorted (map (\<lambda>v. - timeOrZero (checkInTime v)) ws)
                 \<and> (\<forall>w\<in>set ws. status w = VStr ''checked-in'')))
      \<and> (\<forall>e. getActiveVisitors_indexed ord outcome db = Inl e
          \<longrightarrow> getActiveVisitors_fallback outcome db = Inl e))
   \<and> (chronological ord \<and> timestamped (filter storedActive (visitors db))
        \<and> distinct (map checkInMillis (filter storedActive (visitors db)))
      \<longrightarrow> getActiveVisitors_fallback outcome db = getActiveVisitors_indexed ord outcome db)"
proof (intro conjI impI allI)
  assume t: "timestamped (filter storedActive (visitors db))"
  fix vs
  assume "getActiveVisitors_indexed ord outcome db = Inr vs"
  with active_paths_same_visitors [OF t, of ord outcome] obtain ws
    where ws: "getActiveVisitors_fallback outcome db = Inr ws" "mset ws = mset vs"
    by blast
  from active_fallback_docs [OF ws(1)] have "sorted (map (\<lambda>v. - timeOrZero (checkInTime v)) ws)"
    using newestFirst_sorted by auto
  moreover have "\<forall>w\<in>set ws. status w = VStr ''checked-in''"
    using active_status [of ord outcome db ws outcome] ws(1) by blast
  ultimately show "\<exists>ws. getActiveVisitors_fallback outcome db = Inr ws \<and> mset ws = mset vs
      \<and> sorted (map (\<lambda>v. - timeOrZero (checkInTime v)) ws)
      \<and> (\<forall>w\<in>set ws. status w = VStr ''checked-in'')"
    using ws by blast
next
  assume t: "timestamped (filter storedActive (visitors db))"
  fix e
  assume "getActiveVisitors_indexed ord outcome db = Inl e"
  with active_paths_same_visitors [OF t, of ord outcome]
  show "getActiveVisitors_fallback outcome db = Inl e"
    by blast
next
  assume "chronological ord \<and> timestamped (filter storedActive (visitors db))
        \<and> distinct (map checkInMillis (filter storedActive (visitors db)))"
  then show "getActiveVisitors_fallback outcome db = getActiveVisitors_indexed ord outcome db"
    using active_paths_equal by blast
qed

lemma tieDb_active:
  "map_sum id (map visitor_id) (getActiveVisitors_indexed exampleOrd None tieDb) = Inr [''c2'', ''c1'']"
  "map_sum id (map visitor_id) (getActiveVisitors_fallback None tieDb) = Inr [''c1'', ''c2'']"
  by (simp_all add: getActiveVisitors_indexed_def getActiveVisitors_fallback_def tieDb_def
      getDocs_def attempt_def whereEq_def orderByDesc_def withField_def get_Cons get_Nil
      mapDocToVisitor_def mapHealthScreening_def newestFirst_def exampleOrd_def)

theorem active_fallback_agrees_witness:
  "chronological exampleOrd
   \<and> timestamped (filter storedActive (visitors wardDb))
   \<and> distinct (map checkInMillis (filter storedActive (visitors wardDb)))
   \<and> getActiveVisitors_fallback None wardDb = getActiveVisitors_indexed exampleOrd None wardDb
   \<and> map_sum id (map visitor_id) (getActiveVisitors_indexed exampleOrd None wardDb)
       = Inr [''b3'', ''b2'', ''b1'']
   \<and> timestamped (filter storedActive (visitors tieDb))
   \<and> (\<exists>vs ws. getActiveVisitors_indexed exampleOrd None tieDb = Inr vs
         \<and> getActiveVisitors_fallback None tieDb = Inr ws \<and> mset ws = mset vs
         \<and> map visitor_id vs = [''c2'', ''c1''] \<and> map visitor_id ws = [''c1'', ''c2''])"
proof -
  have c: "chronological exampleOrd"
    by (simp add: chronological_def exampleOrd_def)
  have w: "timestamped (filter storedActive (visitors wardDb))"
    "distinct (map checkInMillis (filter storedActive (visitors wardDb)))"
    by (simp_all add: timestamped_def wardDb_def storedActive_def checkInMillis_def get_Cons get_Nil)
  have t: "timestamped (filter storedActive (visitors tieDb))"
    by (simp add: timestamped_def tieDb_def storedActive_def get_Cons get_Nil)
  have i: "map_sum id (map visitor_id) (getActiveVisitors_indexed exampleOrd None wardDb)
       = Inr [''b3'', ''b2'', ''b1'']"
    by (simp add: getActiveVisitors_indexed_def wardDb_def
      getDocs_def attempt_def whereEq_def orderByDesc_def withField_def get_Cons get_Nil
      mapDocToVisitor_def mapHealthScreening_def exampleOrd_def)
  note a = active_fallback_agrees [where ord = exampleOrd and outcome = None]
  from a [where db = wardDb] c w
  have e: "getActiveVisitors_fallback None wardDb = getActiveVisitors_indexed exampleOrd None wardDb"
    by blast
  obtain vs where vs: "getActiveVisitors_indexed exampleOrd None tieDb = Inr vs"
    "map visitor_id vs = [''c2'', ''c1'']"
    using tieDb_active(1) by (cases "getActiveVisitors_indexed exampleOrd None tieDb") auto
  from a [where db = tieDb] t vs(1) obtain ws
    where ws: "getActiveVisitors_fallback None tieDb = Inr ws" "mset ws = mset vs"
    by blast
  with tieDb_active(2) have "map visitor_id ws = [''c1'', ''c2'']"
    by simp
  with vs ws have "\<exists>vs ws. getActiveVisitors_indexed exampleOrd None tieDb = Inr vs
         \<and> getActiveVisitors_fallback None tieDb = Inr ws \<and> mset ws = mset vs
         \<and> map visitor_id vs = [''c2'', ''c1''] \<and> map visitor_id ws = [''c1'', ''c2'']"
    by (intro exI [of _ vs] exI [of _ ws]) simp
  with c w t i e show ?thesis
    by (intro conjI)
qed

text \<open>
  Claim C5 as stated holds for every database state. A visitor stored with status
  \<^verbatim>\<open>'checked-in'\<close> and no \<^verbatim>\<open>checkInTime\<close> is returned by the fallback path only, and
  two visitors with the same check-in time come back in opposite orders: the index
  breaks the tie by document name, descending like the order, and the stable client-side
  sort keeps the ascending names of the unordered query.
\<close>

theorem active_fallback_differs:
  "map_sum id (map visitor_id) (getActiveVisitors_indexed exampleOrd None mixedDb) = Inr [''a2'']
   \<and> map_sum id (map visitor_id) (getActiveVisitors_fallback None mixedDb) = Inr [''a2'', ''a1'']
   \<and> map_sum id (map visitor_id) (getActiveVisitors_indexed exampleOrd None tieDb) = Inr [''c2'', ''c1'']
   \<and> map_sum id (map visitor_id) (getActiveVisitors_fallback None tieDb) = Inr [''c1'', ''c2'']"
  using mixedDb_active tieDb_active by simp

end
